theory Spec2Isabelle
  imports Main
begin

section \<open>Text\<close>

text \<open>
  A Python \<^verbatim>\<open>str\<close> is modelled as a HOL \<^typ>\<open>string\<close>: a list of 8-bit characters, read
  as the code points U+0000 to U+00FF. Text with larger code points is outside the model.
  The character classes below are Python's on that range: \<^verbatim>\<open>str.lower\<close> moves A-Z and
  the Latin-1 capitals (U+00C0 to U+00DE without the multiplication sign U+00D7) by 32,
  \<^verbatim>\<open>\s\<close> holds for 9-13, 28-32, 133 and 160, and \<^verbatim>\<open>\d\<close> holds for
  the digits 0-9 only.
\<close>

definition dquote :: char where
  "dquote = CHR 0x22"

definition squote :: char where
  "squote = CHR 0x27"

definition newline :: char where
  "newline = CHR 0x0A"

definition backslash :: char where
  "backslash = CHR 0x5C"

definition carriage_return :: char where
  "carriage_return = CHR 0x0D"

definition py_lower_char :: "char \<Rightarrow> char" where
  "py_lower_char c =
     (let n = (of_char c :: nat) in
      if (65 \<le> n \<and> n \<le> 90) \<or> (192 \<le> n \<and> n \<le> 222 \<and> n \<noteq> 215)
      then char_of (n + 32) else c)"

definition py_lower :: "string \<Rightarrow> string" where
  "py_lower s = map py_lower_char s"

definition py_isspace :: "char \<Rightarrow> bool" where
  "py_isspace c =
     (let n = (of_char c :: nat) in
      (9 \<le> n \<and> n \<le> 13) \<or> (28 \<le> n \<and> n \<le> 32) \<or> n = 133 \<or> n = 160)"

definition py_isdigit :: "char \<Rightarrow> bool" where
  "py_isdigit c = (let n = (of_char c :: nat) in 48 \<le> n \<and> n \<le> 57)"

text \<open>\<^verbatim>\<open>s.startswith(p)\<close>, and \<^verbatim>\<open>needle in hay\<close> on strings: the substring test.\<close>

fun startswith :: "string \<Rightarrow> string \<Rightarrow> bool" where
  "startswith s [] = True"
| "startswith [] (p # ps) = False"
| "startswith (c # cs) (p # ps) = (c = p \<and> startswith cs ps)"

fun py_in :: "string \<Rightarrow> string \<Rightarrow> bool" where
  "py_in needle [] = (needle = [])"
| "py_in needle (c # cs) = (startswith (c # cs) needle \<or> py_in needle cs)"

text \<open>\<^verbatim>\<open>s.split(sep)\<close> for a one-character separator: one more part than separators.\<close>

fun py_split :: "char \<Rightarrow> string \<Rightarrow> string list" where
  "py_split sep [] = [[]]"
| "py_split sep (c # cs) =
     (if c = sep then [] # py_split sep cs
      else (c # hd (py_split sep cs)) # tl (py_split sep cs))"


section \<open>Integers and their text\<close>

text \<open>
  Python's integers are unbounded: \<^typ>\<open>int\<close>. \<^verbatim>\<open>int(s)\<close> strips white space (the
  code points 9-13, 32, 133 and 160), reads an optional sign and then decimal digits,
  between which single underscores may stand; anything else raises ValueError, here
  \<open>None\<close>. The interpreter limits the conversions between \<^verbatim>\<open>int\<close> and \<^verbatim>\<open>str\<close>:
  \<^verbatim>\<open>int(s)\<close> raises ValueError when \<^verbatim>\<open>s\<close> has more than \<^verbatim>\<open>sys.get_int_max_str_digits()\<close>
  digits (leading zeros count, underscores do not), and \<^verbatim>\<open>str(n)\<close> raises ValueError when
  \<^verbatim>\<open>n\<close> has more decimal digits than that. The script leaves the limit at its default,
  4300.
\<close>

definition max_str_digits :: nat where
  "max_str_digits = 4300"

definition int_space :: "char \<Rightarrow> bool" where
  "int_space c =
     (let n = (of_char c :: nat) in (9 \<le> n \<and> n \<le> 13) \<or> n = 32 \<or> n = 133 \<or> n = 160)"

definition digit_val :: "char \<Rightarrow> nat" where
  "digit_val c = of_char c - 48"

definition digits_val :: "string \<Rightarrow> nat" where
  "digits_val s = foldl (\<lambda>a c. 10 * a + digit_val c) 0 s"

definition int_strip :: "string \<Rightarrow> string" where
  "int_strip s = rev (dropWhile int_space (rev (dropWhile int_space s)))"

definition int_body :: "string \<Rightarrow> bool" where
  "int_body u =
     (u \<noteq> [] \<and> py_isdigit (hd u) \<and> py_isdigit (last u)
      \<and> list_all (\<lambda>c. py_isdigit c \<or> c = CHR ''_'') u
      \<and> \<not> py_in ''__'' u)"

definition py_int :: "string \<Rightarrow> int option" where
  "py_int s =
     (let t = int_strip s;
          neg = (t \<noteq> [] \<and> hd t = CHR ''-'');
          u = (if t \<noteq> [] \<and> (hd t = CHR ''-'' \<or> hd t = CHR ''+'') then tl t else t);
          ds = filter (\<lambda>c. c \<noteq> CHR ''_'') u
      in if int_body u \<and> length ds \<le> max_str_digits
         then Some ((if neg then - 1 else 1) * int (digits_val ds))
         else None)"

text \<open>
  \<open>str_nat\<close> is the decimal text of a natural number. \<^verbatim>\<open>str(n)\<close>, which the f-string
  \<^verbatim>\<open>f"{n}"\<close> calls for an integer, returns it with the sign, or raises ValueError (here
  \<open>None\<close>) over the limit.
\<close>

definition digit_char :: "nat \<Rightarrow> char" where
  "digit_char d = char_of (48 + d)"

fun str_nat :: "nat \<Rightarrow> string" where
  "str_nat n = (if n < 10 then [digit_char n] else str_nat (n div 10) @ [digit_char (n mod 10)])"

definition py_str :: "int \<Rightarrow> string option" where
  "py_str i =
     (let s = str_nat (nat \<bar>i\<bar>) in
      if length s > max_str_digits then None
      else Some (if i < 0 then CHR ''-'' # s else s))"


section \<open>Exceptions\<close>

text \<open>
  The exceptions of the script. Four are ValueError: raised by \<^verbatim>\<open>increment_version\<close>
  for a version that does not split into three parts, by \<^verbatim>\<open>int\<close> for a part that it
  does not convert (the part is the argument), by the f-string for an integer over the
  limit of digits, and by \<^verbatim>\<open>increment_version\<close> for an unknown increment type.
  \<open>OSError\<close> stands for any exception of a file system call and carries its message.
  \<open>TemplateError\<close> stands for the exception that \<^verbatim>\<open>re.sub\<close> raises over its replacement
  text (\<^verbatim>\<open>re.error\<close>, or IndexError for an unknown group name).
\<close>

datatype exn =
    InvalidVersionFormat string
  | IntValueError string
  | StrValueError int
  | InvalidIncrementType string
  | OSError string
  | TemplateError


section \<open>Incrementing a version\<close>

text \<open>\<^verbatim>\<open>f"{major}.{minor}.{patch}"\<close>: the three conversions, from left to right.\<close>

definition format_version :: "int \<Rightarrow> int \<Rightarrow> int \<Rightarrow> exn + string" where
  "format_version major minor patch =
     (case py_str major of
        None \<Rightarrow> Inl (StrValueError major)
      | Some a \<Rightarrow>
     (case py_str minor of
        None \<Rightarrow> Inl (StrValueError minor)
      | Some b \<Rightarrow>
     (case py_str patch of
        None \<Rightarrow> Inl (StrValueError patch)
      | Some c \<Rightarrow> Inr (a @ ''.'' @ b @ ''.'' @ c))))"

text \<open>
  Lines 48 to 52 of the script: the version is split at the dots, a version that has not
  three parts is refused, and \<^verbatim>\<open>map(int, parts)\<close> converts the parts from left to
  right, raising at the first that is no integer.
\<close>

definition parse_version :: "string \<Rightarrow> exn + (int \<times> int \<times> int)" where
  "parse_version current_version =
     (let parts = py_split (CHR ''.'') current_version in
      if length parts \<noteq> 3 then Inl (InvalidVersionFormat current_version)
      else
        (case py_int (parts ! 0) of
           None \<Rightarrow> Inl (IntValueError (parts ! 0))
         | Some major \<Rightarrow>
        (case py_int (parts ! 1) of
           None \<Rightarrow> Inl (IntValueError (parts ! 1))
         | Some minor \<Rightarrow>
        (case py_int (parts ! 2) of
           None \<Rightarrow> Inl (IntValueError (parts ! 2))
         | Some patch \<Rightarrow> Inr (major, minor, patch)))))"

definition increment_version :: "string \<Rightarrow> string \<Rightarrow> exn + string" where
  "increment_version current_version increment_type =
     (case parse_version current_version of
        Inl e \<Rightarrow> Inl e
      | Inr (major, minor, patch) \<Rightarrow>
          if increment_type = ''major'' then format_version (major + 1) 0 0
          else if increment_type = ''minor'' then format_version major (minor + 1) 0
          else if increment_type = ''patch'' then format_version major minor (patch + 1)
          else Inl (InvalidIncrementType increment_type))"

text \<open>
  The lexicographic order on versions, the text of a version of three natural numbers,
  and the text of a version as the read pattern captures it: three non-empty runs of
  digits with a dot between them.
\<close>

definition version_string :: "nat \<Rightarrow> nat \<Rightarrow> nat \<Rightarrow> string" where
  "version_string a b c = str_nat a @ ''.'' @ str_nat b @ ''.'' @ str_nat c"

fun version_less :: "int \<times> int \<times> int \<Rightarrow> int \<times> int \<times> int \<Rightarrow> bool" where
  "version_less (a, b, c) (a', b', c') = (a < a' \<or> (a = a' \<and> (b < b' \<or> (b = b' \<and> c < c'))))"

definition digits :: "string \<Rightarrow> bool" where
  "digits s = (s \<noteq> [] \<and> list_all py_isdigit s)"

definition version_text :: "string \<Rightarrow> bool" where
  "version_text s = (let parts = py_split (CHR ''.'') s in length parts = 3 \<and> list_all digits parts)"


section \<open>Reading the commit message\<close>

text \<open>
  The first \<^verbatim>\<open>if\<close> of \<^verbatim>\<open>parse_commit_message_for_increment\<close> has the body \<^verbatim>\<open>pass\<close>
  and no effect; the chain of marker tests is what decides.
\<close>

definition parse_commit_message_for_increment :: "string \<Rightarrow> string" where
  "parse_commit_message_for_increment commit_message =
     (let commit_message_lower = py_lower commit_message in
      if py_in ''[major]'' commit_message_lower then ''major''
      else if py_in ''[minor]'' commit_message_lower then ''minor''
      else if py_in ''[patch]'' commit_message_lower then ''patch''
      else ''patch'')"

text \<open>
  What the specification calls a case-insensitive, position-independent substring: the
  message has a part, anywhere, that is the marker up to the case of its letters.
\<close>

definition occurs_ci :: "string \<Rightarrow> string \<Rightarrow> bool" where
  "occurs_ci marker message = (\<exists>pre mid post. message = pre @ mid @ post \<and> py_lower mid = marker)"

definition should_skip_version_update :: "string \<Rightarrow> bool" where
  "should_skip_version_update commit_message =
     (let commit_message_lower = py_lower commit_message in
      if (py_in ''auto-increment version'' commit_message_lower
          \<or> py_in ''chore: auto-increment'' commit_message_lower)
         \<and> \<not> list_ex (\<lambda>marker. py_in marker commit_message_lower)
                [''[major]'', ''[minor]'', ''[patch]'']
      then True else False)"


section \<open>The two regular expressions\<close>

text \<open>
  Both patterns of the script are sequences of single characters and character classes,
  some under a greedy \<^verbatim>\<open>*\<close> or \<^verbatim>\<open>+\<close>, with at most one group. \<open>re_match\<close> is
  the backtracking matcher of \<^verbatim>\<open>re\<close> for that fragment, anchored at the start of its
  input: a greedy repetition first takes the next character and gives it back only when
  the rest of the pattern fails. \<^verbatim>\<open>c+\<close> is written \<open>One c, Many c\<close>. The matcher
  returns the text of the group and the input that is left after the match.
\<close>

datatype atom = One "char \<Rightarrow> bool" | Many "char \<Rightarrow> bool" | GroupOpen | GroupClose

fun re_match :: "atom list \<Rightarrow> string \<Rightarrow> bool \<Rightarrow> string \<Rightarrow> (string \<times> string) option" where
  "re_match [] s rec cap = Some (rev cap, s)"
| "re_match (GroupOpen # r) s rec cap = re_match r s True []"
| "re_match (GroupClose # r) s rec cap = re_match r s False cap"
| "re_match (One p # r) [] rec cap = None"
| "re_match (One p # r) (c # cs) rec cap =
     (if p c then re_match r cs rec (if rec then c # cap else cap) else None)"
| "re_match (Many p # r) [] rec cap = re_match r [] rec cap"
| "re_match (Many p # r) (c # cs) rec cap =
     (if p c
      then (case re_match (Many p # r) cs rec (if rec then c # cap else cap) of
              Some m \<Rightarrow> Some m
            | None \<Rightarrow> re_match r (c # cs) rec cap)
      else re_match r (c # cs) rec cap)"

text \<open>\<^verbatim>\<open>re.search(pat, s)\<close>: the match at the leftmost position that has one; its group 1.\<close>

fun re_search :: "atom list \<Rightarrow> string \<Rightarrow> string option" where
  "re_search pat [] = map_option fst (re_match pat [] False [])"
| "re_search pat (c # cs) =
     (case re_match pat (c # cs) False [] of
        Some m \<Rightarrow> Some (fst m)
      | None \<Rightarrow> re_search pat cs)"

text \<open>
  The substitution of \<^verbatim>\<open>re.sub\<close> with a replacement text that is taken as it is: every
  match, found from left to right and not overlapping an earlier one, is replaced.
  Neither pattern of the script matches the empty string; the branch for an empty match
  copies one character and keeps the function total.
\<close>

fun re_sub :: "atom list \<Rightarrow> string \<Rightarrow> string \<Rightarrow> string" where
  "re_sub pat repl [] = (case re_match pat [] False [] of Some m \<Rightarrow> repl | None \<Rightarrow> [])"
| "re_sub pat repl (c # cs) =
     (case re_match pat (c # cs) False [] of
        Some m \<Rightarrow>
          if length (snd m) < length (c # cs) then repl @ re_sub pat repl (snd m)
          else repl @ c # re_sub pat repl cs
      | None \<Rightarrow> c # re_sub pat repl cs)"

definition lit :: "string \<Rightarrow> atom list" where
  "lit s = map (\<lambda>c. One (\<lambda>x. x = c)) s"

definition is_quote :: "char \<Rightarrow> bool" where
  "is_quote c = (c = dquote \<or> c = squote)"

definition not_quote :: "char \<Rightarrow> bool" where
  "not_quote c = (\<not> is_quote c)"

definition is_dot :: "char \<Rightarrow> bool" where
  "is_dot c = (c = CHR ''.'')"

text \<open>\<^verbatim>\<open>__version__\s*=\s*["\'](\d+\.\d+\.\d+)["\']\<close>\<close>

definition version_read_pattern :: "atom list" where
  "version_read_pattern =
     lit ''__version__'' @
     [Many py_isspace, One (\<lambda>c. c = CHR ''=''), Many py_isspace, One is_quote,
      GroupOpen,
      One py_isdigit, Many py_isdigit, One is_dot,
      One py_isdigit, Many py_isdigit, One is_dot,
      One py_isdigit, Many py_isdigit,
      GroupClose,
      One is_quote]"

text \<open>\<^verbatim>\<open>__version__\s*=\s*["\'][^"\']+["\']\<close>\<close>

definition version_write_pattern :: "atom list" where
  "version_write_pattern =
     lit ''__version__'' @
     [Many py_isspace, One (\<lambda>c. c = CHR ''=''), Many py_isspace, One is_quote,
      One not_quote, Many not_quote,
      One is_quote]"


section \<open>The replacement text of a substitution\<close>

text \<open>
  \<^verbatim>\<open>re.sub\<close> takes a replacement text without backslash as it is. It parses one with a
  backslash first: \<^verbatim>\<open>\g<n>\<close> stands for group \<^verbatim>\<open>n\<close>, a backslash with one to three
  digits for a group or for the character of an octal code, a backslash with one of
  \<^verbatim>\<open>a b f n r t v\<close> or another backslash for a control character or the backslash, and a
  backslash with any other character that is no ASCII letter for the two characters. The
  write pattern has no group, so that only group 0, the whole match, can be named; every
  other group, an unknown escape, an octal code above 255 and a backslash at the end
  raise an exception, here \<open>None\<close>.
\<close>

datatype piece = Lit char | Whole

definition is_octal :: "char \<Rightarrow> bool" where
  "is_octal c = (let n = (of_char c :: nat) in 48 \<le> n \<and> n \<le> 55)"

definition ascii_letter :: "char \<Rightarrow> bool" where
  "ascii_letter c = (let n = (of_char c :: nat) in (65 \<le> n \<and> n \<le> 90) \<or> (97 \<le> n \<and> n \<le> 122))"

definition escape_code :: "char \<Rightarrow> nat option" where
  "escape_code c =
     (if c = CHR ''a'' then Some 7 else if c = CHR ''b'' then Some 8
      else if c = CHR ''f'' then Some 12 else if c = CHR ''n'' then Some 10
      else if c = CHR ''r'' then Some 13 else if c = CHR ''t'' then Some 9
      else if c = CHR ''v'' then Some 11 else if c = backslash then Some 92
      else None)"

definition lit_then :: "char \<Rightarrow> piece list option \<Rightarrow> piece list option" where
  "lit_then c r = map_option (\<lambda>ps. Lit c # ps) r"

text \<open>
  The first argument is \<open>None\<close> outside a group name and holds the characters of the name
  read so far, the last one first, inside \<^verbatim>\<open>\g<...>\<close>.
\<close>

fun parse_template :: "string option \<Rightarrow> string \<Rightarrow> piece list option" where
  "parse_template None [] = Some []"
| "parse_template None [c] = (if c = backslash then None else Some [Lit c])"
| "parse_template None (c # d # rest) =
     (if c \<noteq> backslash then lit_then c (parse_template None (d # rest))
      else if d = CHR ''g'' then
        (case rest of
           [] \<Rightarrow> None
         | e # r \<Rightarrow> if e = CHR ''<'' then parse_template (Some []) r else None)
      else if d = CHR ''0'' then
        (case rest of
           [] \<Rightarrow> Some [Lit (char_of (0 :: nat))]
         | e # r \<Rightarrow>
             if is_octal e then
               (case r of
                  [] \<Rightarrow> Some [Lit (char_of (digit_val e))]
                | f # r' \<Rightarrow>
                    if is_octal f
                    then lit_then (char_of (8 * digit_val e + digit_val f)) (parse_template None r')
                    else lit_then (char_of (digit_val e)) (parse_template None (f # r')))
             else lit_then (char_of (0 :: nat)) (parse_template None (e # r)))
      else if py_isdigit d then
        (case rest of
           [] \<Rightarrow> None
         | e # r \<Rightarrow>
             (case r of
                [] \<Rightarrow> None
              | f # r' \<Rightarrow>
                  if is_octal d \<and> is_octal e \<and> is_octal f
                  then (let v = 64 * digit_val d + 8 * digit_val e + digit_val f in
                        if v > 255 then None else lit_then (char_of v) (parse_template None r'))
                  else None))
      else
        (case escape_code d of
           Some n \<Rightarrow> lit_then (char_of n) (parse_template None rest)
         | None \<Rightarrow>
             if ascii_letter d then None
             else lit_then c (lit_then d (parse_template None rest))))"
| "parse_template (Some name) [] = None"
| "parse_template (Some name) (c # cs) =
     (if c = CHR ''>'' then
        (if name \<noteq> [] \<and> py_int (rev name) = Some 0
         then map_option (\<lambda>ps. Whole # ps) (parse_template None cs)
         else None)
      else parse_template (Some (c # name)) cs)"

definition expand_template :: "piece list \<Rightarrow> string \<Rightarrow> string" where
  "expand_template ps matched =
     concat (map (\<lambda>p. case p of Lit c \<Rightarrow> [c] | Whole \<Rightarrow> matched) ps)"

text \<open>The substitution with a replacement computed from the text of each match.\<close>

fun re_sub_with :: "atom list \<Rightarrow> (string \<Rightarrow> string) \<Rightarrow> string \<Rightarrow> string" where
  "re_sub_with pat f [] = (case re_match pat [] False [] of Some m \<Rightarrow> f [] | None \<Rightarrow> [])"
| "re_sub_with pat f (c # cs) =
     (case re_match pat (c # cs) False [] of
        Some m \<Rightarrow>
          if length (snd m) < length (c # cs)
          then f (take (length (c # cs) - length (snd m)) (c # cs)) @ re_sub_with pat f (snd m)
          else f [] @ c # re_sub_with pat f cs
      | None \<Rightarrow> c # re_sub_with pat f cs)"

text \<open>\<^verbatim>\<open>re.sub(pat, repl, s)\<close> as the script calls it; \<open>None\<close> when it raises.\<close>

definition py_re_sub :: "atom list \<Rightarrow> string \<Rightarrow> string \<Rightarrow> string option" where
  "py_re_sub pat repl s =
     (if backslash \<notin> set repl then Some (re_sub pat repl s)
      else map_option (\<lambda>ps. re_sub_with pat (expand_template ps) s) (parse_template None repl))"


section \<open>The version file\<close>

text \<open>
  The file system as the script sees it through the one path it uses. \<open>vfile\<close> is the
  text that the version file holds, \<open>None\<close> when the path does not exist. The other fields
  say how the calls of the script fare in this environment; a call that fails raises an
  exception, whose message the field holds:
  \<^item> \<open>exists_error\<close> for \<^verbatim>\<open>version_file.exists()\<close>, which raises when the status of the
    path cannot be read for another reason than that the file is missing (a name that is
    too long, a directory that may not be searched);
  \<^item> \<open>mkdir_error\<close> for \<^verbatim>\<open>version_file.parent.mkdir\<close>;
  \<^item> \<open>read_error\<close> for opening and reading the file;
  \<^item> \<open>open_error\<close> for opening it for writing;
  \<^item> \<open>write_error\<close> for writing and closing it once it is open.

  The new content reaches the file in one write of the operating system or in several:
  \<open>write_cuts\<close> holds the lengths of the part of the new content that the file holds
  after each write before the last one. A write that fails raises after these.

  The file is opened in text mode. Reading turns every CR LF and every other CR into LF
  (\<open>universal_newlines\<close>); writing is taken on a system whose line separator
  is LF, so that it writes the text as it is. The contents of the file are text: a write
  that stops inside the bytes of one character is not represented. The script's
  \<^verbatim>\<open>print\<close> is taken to succeed.
\<close>

record fs =
  vfile :: "string option"
  exists_error :: "string option"
  mkdir_error :: "string option"
  read_error :: "string option"
  open_error :: "string option"
  write_cuts :: "nat list"
  write_error :: "string option"

fun universal_newlines :: "string \<Rightarrow> string" where
  "universal_newlines [] = []"
| "universal_newlines [c] = (if c = carriage_return then [newline] else [c])"
| "universal_newlines (c # d # rest) =
     (if c = carriage_return
      then (if d = newline then newline # universal_newlines rest
            else newline # universal_newlines (d # rest))
      else c # universal_newlines (d # rest))"

text \<open>
  A line that the script prints: its text, or for the line
  \<^verbatim>\<open>Error updating version file: {e}\<close> the exception \<^verbatim>\<open>e\<close>.
\<close>

datatype line = Text string | ErrorUpdating exn

text \<open>
  \<^verbatim>\<open>read_current_version\<close> returns the version and the lines it prints, or raises the
  exception of \<^verbatim>\<open>exists()\<close>, which stands before its \<^verbatim>\<open>try\<close>.
\<close>

definition read_current_version :: "fs \<Rightarrow> string \<Rightarrow> exn + (string \<times> line list)" where
  "read_current_version env version_file_path =
     (case exists_error env of
        Some e \<Rightarrow> Inl (OSError e)
      | None \<Rightarrow>
     (case vfile env of
        None \<Rightarrow> Inr (''0.0.0'', [])
      | Some stored \<Rightarrow>
          (case read_error env of
             Some e \<Rightarrow>
               Inr (''0.0.0'',
                    [Text (''Error reading version file: '' @ e @ '', defaulting to 0.0.0'')])
           | None \<Rightarrow>
               (case re_search version_read_pattern (universal_newlines stored) of
                  Some version \<Rightarrow> Inr (version, [])
                | None \<Rightarrow>
                    Inr (''0.0.0'',
                         [Text (''Warning: Could not parse version from '' @ version_file_path
                                @ '', defaulting to 0.0.0'')])))))"

text \<open>\<^verbatim>\<open>f'__version__ = "{new_version}"'\<close>\<close>

definition version_assignment :: "string \<Rightarrow> string" where
  "version_assignment new_version = ''__version__ = '' @ [dquote] @ new_version @ [dquote]"

text \<open>
  The first half of the \<^verbatim>\<open>try\<close> block of \<^verbatim>\<open>update_version_file\<close>: the content
  to write, or the exception raised on the way.
\<close>

definition new_file_content :: "fs \<Rightarrow> string \<Rightarrow> exn + string" where
  "new_file_content env new_version =
     (case exists_error env of
        Some e \<Rightarrow> Inl (OSError e)
      | None \<Rightarrow>
     (case vfile env of
        Some stored \<Rightarrow>
          (case read_error env of
             Some e \<Rightarrow> Inl (OSError e)
           | None \<Rightarrow>
               (let content = universal_newlines stored in
                case py_re_sub version_write_pattern (version_assignment new_version) content of
                  None \<Rightarrow> Inl TemplateError
                | Some new_content \<Rightarrow>
                    if new_content = content
                    then Inr (version_assignment new_version @ [newline])
                    else Inr new_content))
      | None \<Rightarrow> Inr (version_assignment new_version @ [newline])))"

text \<open>
  \<^verbatim>\<open>update_version_file\<close> returns \<open>Inl\<close> for the exception that leaves it (the
  directory is made before the \<^verbatim>\<open>try\<close>), and otherwise its boolean result, the lines
  it prints and the contents the version file has had, one after the other, from the
  call to the return: \<^verbatim>\<open>open(version_file, 'w')\<close> empties the file, the writes under it
  fill it from the start. The last of them is the content the call leaves, and a call
  that is interrupted leaves one of them.
\<close>

definition written :: "fs \<Rightarrow> string \<Rightarrow> string option list" where
  "written env new_content = map (\<lambda>k. Some (take k new_content)) (write_cuts env)"

definition update_version_file :: "fs \<Rightarrow> string \<Rightarrow> exn + (bool \<times> line list \<times> string option list)" where
  "update_version_file env new_version =
     (case mkdir_error env of
        Some e \<Rightarrow> Inl (OSError e)
      | None \<Rightarrow>
          (case new_file_content env new_version of
             Inl e \<Rightarrow> Inr (False, [ErrorUpdating e], [vfile env])
           | Inr new_content \<Rightarrow>
               (case open_error env of
                  Some e \<Rightarrow> Inr (False, [ErrorUpdating (OSError e)], [vfile env])
                | None \<Rightarrow>
                    (case write_error env of
                       Some e \<Rightarrow>
                         Inr (False, [ErrorUpdating (OSError e)],
                              [vfile env, Some []] @ written env new_content)
                     | None \<Rightarrow>
                         Inr (True, [],
                              [vfile env, Some []] @ written env new_content
                              @ [Some new_content])))))"

text \<open>
  An environment in which no call fails and the content is written at once, and the
  condition under which the \<^verbatim>\<open>try\<close> block of \<^verbatim>\<open>update_version_file\<close> raises for a
  new version without backslash: the test for the file, reading the existing file,
  opening it for writing or writing it fails.
\<close>

definition healthy :: "string option \<Rightarrow> fs" where
  "healthy stored =
     \<lparr>vfile = stored, exists_error = None, mkdir_error = None, read_error = None,
      open_error = None, write_cuts = [], write_error = None\<rparr>"

definition write_fails :: "fs \<Rightarrow> bool" where
  "write_fails env =
     (exists_error env \<noteq> None \<or> (vfile env \<noteq> None \<and> read_error env \<noteq> None)
      \<or> open_error env \<noteq> None \<or> write_error env \<noteq> None)"


section \<open>The script\<close>

text \<open>
  How a run ends: \<^verbatim>\<open>sys.exit(n)\<close>, or an exception that nothing catches, for which
  the interpreter prints a traceback and exits with code 1.
\<close>

datatype outcome = Exit nat | Uncaught exn

fun exit_code :: "outcome \<Rightarrow> nat" where
  "exit_code (Exit n) = n"
| "exit_code (Uncaught e) = 1"

record run =
  outcome :: outcome
  printed :: "line list"
  file_after :: "string option"

text \<open>
  \<^verbatim>\<open>main\<close>, with the path of \<^verbatim>\<open>VERSION_FILE\<close> and the string that
  \<^verbatim>\<open>get_latest_commit_message\<close> returns as parameters: a run in which git
  answers. The lines that \<^verbatim>\<open>get_latest_commit_message\<close> prints when git fails are
  not among the printed lines.
\<close>

definition main :: "fs \<Rightarrow> string \<Rightarrow> string \<Rightarrow> run" where
  "main env version_file_path commit_message =
     (case read_current_version env version_file_path of
        Inl e \<Rightarrow> \<lparr>outcome = Uncaught e, printed = [], file_after = vfile env\<rparr>
      | Inr (current_version, out0) \<Rightarrow>
     (let out1 = out0 @ [Text (''Current version: '' @ current_version)] in
      if should_skip_version_update commit_message
      then \<lparr>outcome = Exit 0,
            printed = out1 @
              [Text ''Skipping version update - commit appears to be an auto-version update''],
            file_after = vfile env\<rparr>
      else
        (let increment_type = parse_commit_message_for_increment commit_message;
             out2 = out1 @ [Text (''Commit message: '' @ take 50 commit_message @ ''...''),
                            Text (''Increment type: '' @ increment_type)]
         in
         case increment_version current_version increment_type of
           Inl e \<Rightarrow> \<lparr>outcome = Uncaught e, printed = out2, file_after = vfile env\<rparr>
         | Inr new_version \<Rightarrow>
             (let out3 = out2 @ [Text (''New version: '' @ new_version)] in
              case update_version_file env new_version of
                Inl e \<Rightarrow> \<lparr>outcome = Uncaught e, printed = out3, file_after = vfile env\<rparr>
              | Inr (ok, out_u, contents) \<Rightarrow>
                  if ok
                  then \<lparr>outcome = (if current_version \<noteq> new_version then Exit 0 else Exit 1),
                        printed = out3 @ out_u @
                          [Text (''Successfully updated '' @ version_file_path
                                 @ '' to version '' @ new_version)],
                        file_after = last contents\<rparr>
                  else \<lparr>outcome = Exit 1,
                        printed = out3 @ out_u @ [Text ''Failed to update version file''],
                        file_after = last contents\<rparr>))))"


declare str_nat.simps [simp del]


section \<open>Substrings\<close>

lemma startswith_iff: "startswith s p \<longleftrightarrow> (\<exists>r. s = p @ r)"
  by (induction s p rule: startswith.induct) auto

lemma py_in_iff: "py_in needle hay \<longleftrightarrow> (\<exists>pre post. hay = pre @ needle @ post)"
proof (induction hay)
  case Nil
  show ?case by auto
next
  case (Cons c cs)
  show ?case
  proof
    assume "py_in needle (c # cs)"
    then consider "startswith (c # cs) needle" | "py_in needle cs" by auto
    then show "\<exists>pre post. c # cs = pre @ needle @ post"
    proof cases
      case 1
      then obtain r where "c # cs = needle @ r" by (auto simp: startswith_iff)
      then have "c # cs = [] @ needle @ r" by simp
      then show ?thesis by blast
    next
      case 2
      with Cons.IH obtain pre post where "cs = pre @ needle @ post" by blast
      then have "c # cs = (c # pre) @ needle @ post" by simp
      then show ?thesis by blast
    qed
  next
    assume "\<exists>pre post. c # cs = pre @ needle @ post"
    then obtain pre post where e: "c # cs = pre @ needle @ post" by blast
    show "py_in needle (c # cs)"
    proof (cases pre)
      case Nil
      with e have "startswith (c # cs) needle" by (auto simp: startswith_iff)
      then show ?thesis by simp
    next
      case (Cons p ps)
      with e have "cs = ps @ needle @ post" by simp
      with Cons.IH have "py_in needle cs" by blast
      then show ?thesis by simp
    qed
  qed
qed

lemma py_in_set: "py_in needle hay \<Longrightarrow> set needle \<subseteq> set hay"
  by (auto simp: py_in_iff)

lemma map_eq_appendD:
  "map f xs = ys @ zs \<Longrightarrow> \<exists>us vs. xs = us @ vs \<and> map f us = ys \<and> map f vs = zs"
  by (auto simp: map_eq_append_conv)

lemma occurs_ci_iff: "occurs_ci marker message \<longleftrightarrow> py_in marker (py_lower message)"
proof
  assume "occurs_ci marker message"
  then obtain pre mid post where "message = pre @ mid @ post" "py_lower mid = marker"
    by (auto simp: occurs_ci_def)
  then have "py_lower message = py_lower pre @ marker @ py_lower post"
    by (simp add: py_lower_def)
  then show "py_in marker (py_lower message)" unfolding py_in_iff by blast
next
  assume "py_in marker (py_lower message)"
  then obtain a b where "map py_lower_char message = a @ marker @ b"
    unfolding py_in_iff py_lower_def by blast
  from map_eq_appendD [OF this]
  obtain pre rest where m: "message = pre @ rest" and r: "map py_lower_char rest = marker @ b"
    by blast
  from map_eq_appendD [OF r]
  obtain mid post where "rest = mid @ post" "map py_lower_char mid = marker"
    by blast
  with m show "occurs_ci marker message"
    unfolding occurs_ci_def py_lower_def by blast
qed


section \<open>Integers written and read back\<close>

lemma isdigit_iff: "py_isdigit c \<longleftrightarrow> 48 \<le> (of_char c :: nat) \<and> (of_char c :: nat) \<le> 57"
  by (simp add: py_isdigit_def Let_def)

lemma isdigit_not_special:
  assumes "py_isdigit c"
  shows "c \<noteq> CHR ''.''" "c \<noteq> CHR ''-''" "c \<noteq> CHR ''+''" "c \<noteq> CHR ''_''"
    "\<not> int_space c" "c \<noteq> backslash" "\<not> is_quote c"
  using assms
  by (auto simp: isdigit_iff int_space_def Let_def backslash_def is_quote_def dquote_def squote_def)

lemma digit_char_isdigit: "d < 10 \<Longrightarrow> py_isdigit (digit_char d)"
  by (simp add: isdigit_iff digit_char_def)

lemma digit_val_digit_char: "d < 10 \<Longrightarrow> digit_val (digit_char d) = d"
  by (simp add: digit_val_def digit_char_def)

lemma str_nat_digits: "digits (str_nat n)"
proof (induction n rule: str_nat.induct)
  case (1 n)
  show ?case
  proof (cases "n < 10")
    case True
    then show ?thesis by (simp add: str_nat.simps [of n] digits_def digit_char_isdigit)
  next
    case False
    with "1.IH" have "digits (str_nat (n div 10))" by simp
    moreover have "py_isdigit (digit_char (n mod 10))" by (simp add: digit_char_isdigit)
    ultimately show ?thesis using False by (simp add: str_nat.simps [of n] digits_def)
  qed
qed

lemma digits_val_snoc: "digits_val (s @ [c]) = 10 * digits_val s + digit_val c"
  by (simp add: digits_val_def)

lemma digits_val_str_nat: "digits_val (str_nat n) = n"
proof (induction n rule: str_nat.induct)
  case (1 n)
  show ?case
  proof (cases "n < 10")
    case True
    then show ?thesis by (simp add: str_nat.simps [of n] digits_val_def digit_val_digit_char)
  next
    case False
    with "1.IH" have "digits_val (str_nat (n div 10)) = n div 10" by simp
    then show ?thesis using False
      by (simp add: str_nat.simps [of n] digits_val_snoc digit_val_digit_char)
  qed
qed

lemma int_strip_digits:
  assumes "digits s"
  shows "int_strip s = s"
proof -
  from assms obtain c cs where s: "s = c # cs" and c: "py_isdigit c"
    by (cases s) (auto simp: digits_def)
  from assms have "s \<noteq> []" and l: "py_isdigit (last s)"
    by (auto simp: digits_def list_all_iff)
  have 1: "dropWhile int_space s = s" using s c by (simp add: isdigit_not_special)
  have 2: "dropWhile int_space (rev s) = rev s" using l \<open>s \<noteq> []\<close>
    by (simp add: dropWhile_eq_self_iff hd_rev isdigit_not_special)
  show ?thesis by (simp add: int_strip_def 1 2)
qed

lemma py_int_digits:
  assumes "digits s" "length s \<le> max_str_digits"
  shows "py_int s = Some (int (digits_val s))"
proof -
  from assms obtain c cs where s: "s = c # cs" and c: "py_isdigit c"
    by (cases s) (auto simp: digits_def)
  from assms have all: "\<forall>x\<in>set s. py_isdigit x" by (auto simp: digits_def list_all_iff)
  have l: "py_isdigit (last s)" using all s by (metis last_in_set list.distinct(1))
  have "CHR ''_'' \<notin> set s" using all isdigit_not_special(4) by blast
  then have nu: "\<not> py_in ''__'' s" using py_in_set [of "''__''" s] by auto
  have f: "filter (\<lambda>c. c \<noteq> CHR ''_'') s = s" using all isdigit_not_special(4) by (auto simp: filter_id_conv)
  have body: "int_body s" using s c l all nu by (simp add: int_body_def list_all_iff)
  have hd: "hd s \<noteq> CHR ''-''" "hd s \<noteq> CHR ''+''" using s c isdigit_not_special by auto
  show ?thesis unfolding py_int_def int_strip_digits [OF assms(1)] Let_def
    using body hd f assms(2) by simp
qed

lemma py_int_too_long:
  assumes "digits s" "max_str_digits < length s"
  shows "py_int s = None"
proof -
  from assms have all: "\<forall>x\<in>set s. py_isdigit x" by (auto simp: digits_def list_all_iff)
  from assms obtain c cs where s: "s = c # cs" and c: "py_isdigit c"
    by (cases s) (auto simp: digits_def)
  have f: "filter (\<lambda>c. c \<noteq> CHR ''_'') s = s" using all isdigit_not_special(4) by (auto simp: filter_id_conv)
  have hd: "hd s \<noteq> CHR ''-''" "hd s \<noteq> CHR ''+''" using s c isdigit_not_special by auto
  show ?thesis unfolding py_int_def int_strip_digits [OF assms(1)] Let_def
    using hd f assms(2) by simp
qed

lemma limit_ge: "2 \<le> max_str_digits"
  by (simp add: max_str_digits_def)

lemma below_limit: "n < 100 \<Longrightarrow> (n::nat) < 10 ^ max_str_digits"
proof -
  assume "n < 100"
  then have "n < 10 ^ 2" by simp
  also have "(10::nat) ^ 2 \<le> 10 ^ max_str_digits"
    using limit_ge by (intro power_increasing) simp_all
  finally show ?thesis .
qed

lemma str_nat_length_le: "0 < L \<Longrightarrow> n < 10 ^ L \<Longrightarrow> length (str_nat n) \<le> L"
proof (induction n arbitrary: L rule: str_nat.induct)
  case (1 n)
  show ?case
  proof (cases "n < 10")
    case True
    with "1.prems" show ?thesis by (simp add: str_nat.simps [of n])
  next
    case False
    from "1.prems" obtain L' where L: "L = Suc L'" by (cases L) auto
    with "1.prems" False have "0 < L'" by (cases L') auto
    moreover from "1.prems" L have "n div 10 < 10 ^ L'"
      by (simp add: less_mult_imp_div_less mult.commute)
    ultimately have "length (str_nat (n div 10)) \<le> L'" using "1.IH" [OF False] by blast
    with False L show ?thesis by (simp add: str_nat.simps [of n])
  qed
qed

lemma str_nat_length_gt: "10 ^ L \<le> n \<Longrightarrow> L < length (str_nat n)"
proof (induction n arbitrary: L rule: str_nat.induct)
  case (1 n)
  show ?case
  proof (cases "n < 10")
    case True
    have "L = 0"
    proof (cases L)
      case (Suc L')
      have "(10::nat) \<le> 10 * 10 ^ L'" by simp
      with "1.prems" True Suc show ?thesis by simp
    qed simp
    with True show ?thesis by (simp add: str_nat.simps [of n])
  next
    case False
    show ?thesis
    proof (cases L)
      case 0
      then show ?thesis using False by (simp add: str_nat.simps [of n])
    next
      case (Suc L')
      with "1.prems" have "10 ^ L' \<le> n div 10" by (simp add: less_eq_div_iff_mult_less_eq mult.commute)
      from "1.IH" [OF False this] have "L' < length (str_nat (n div 10))" .
      with False Suc show ?thesis by (simp add: str_nat.simps [of n])
    qed
  qed
qed

lemma py_str_nat: "n < 10 ^ max_str_digits \<Longrightarrow> py_str (int n) = Some (str_nat n)"
  using str_nat_length_le [of max_str_digits n] limit_ge by (simp add: py_str_def Let_def)

lemma py_str_too_big: "10 ^ max_str_digits \<le> n \<Longrightarrow> py_str (int n) = None"
  using str_nat_length_gt [of max_str_digits n] by (simp add: py_str_def Let_def)

lemma py_str_Some: "py_str (int n) = Some s \<Longrightarrow> s = str_nat n \<and> length s \<le> max_str_digits"
  by (auto simp: py_str_def Let_def split: if_splits)

lemma py_split_no_sep: "sep \<notin> set s \<Longrightarrow> py_split sep s = [s]"
  by (induction s) auto

lemma py_split_append: "sep \<notin> set s \<Longrightarrow> py_split sep (s @ sep # t) = s # py_split sep t"
  by (induction s) auto

lemma digits_no_dot: "digits s \<Longrightarrow> CHR ''.'' \<notin> set s"
  using isdigit_not_special(1) by (auto simp: digits_def list_all_iff)

lemma split_version:
  assumes "digits a" "digits b" "digits c"
  shows "py_split (CHR ''.'') (a @ ''.'' @ b @ ''.'' @ c) = [a, b, c]"
  using assms by (simp add: py_split_append py_split_no_sep digits_no_dot)

lemma parse_version_digits:
  assumes "digits a" "digits b" "digits c"
  shows "parse_version (a @ ''.'' @ b @ ''.'' @ c)
         = (if max_str_digits < length a then Inl (IntValueError a)
            else if max_str_digits < length b then Inl (IntValueError b)
            else if max_str_digits < length c then Inl (IntValueError c)
            else Inr (int (digits_val a), int (digits_val b), int (digits_val c)))"
proof -
  have p: "py_int s = (if max_str_digits < length s then None else Some (int (digits_val s)))"
    if "digits s" for s
    using that py_int_digits [of s] py_int_too_long [of s] by auto
  show ?thesis
    using assms by (simp add: parse_version_def split_version p del: append_Cons)
qed

lemma parse_version_string:
  assumes "a < 10 ^ max_str_digits" "b < 10 ^ max_str_digits" "c < 10 ^ max_str_digits"
  shows "parse_version (version_string a b c) = Inr (int a, int b, int c)"
proof -
  have l: "\<not> max_str_digits < length (str_nat n)" if "n < 10 ^ max_str_digits" for n
    using str_nat_length_le [of max_str_digits n] that limit_ge by simp
  show ?thesis
    unfolding version_string_def
    using parse_version_digits [OF str_nat_digits str_nat_digits str_nat_digits, of a b c]
      l [OF assms(1)] l [OF assms(2)] l [OF assms(3)]
    by (simp add: digits_val_str_nat)
qed

lemma format_version_nat:
  assumes "a < 10 ^ max_str_digits" "b < 10 ^ max_str_digits" "c < 10 ^ max_str_digits"
  shows "format_version (int a) (int b) (int c) = Inr (version_string a b c)"
  using assms by (simp add: format_version_def py_str_nat version_string_def)

lemma version_text_digits:
  assumes "digits a" "digits b" "digits c"
  shows "version_text (a @ ''.'' @ b @ ''.'' @ c)"
  using assms by (simp add: version_text_def split_version del: append_Cons)

lemma increment_version_parsed:
  assumes "parse_version v = Inr (a, b, c)"
  shows "increment_version v t =
     (if t = ''major'' then format_version (a + 1) 0 0
      else if t = ''minor'' then format_version a (b + 1) 0
      else if t = ''patch'' then format_version a b (c + 1)
      else Inl (InvalidIncrementType t))"
  using assms by (simp add: increment_version_def)

lemma format_version_succ:
  assumes "a < 10 ^ max_str_digits" "b < 10 ^ max_str_digits" "c < 10 ^ max_str_digits"
  shows "format_version (int a + 1) 0 0
           = (if a + 1 < 10 ^ max_str_digits then Inr (version_string (a + 1) 0 0)
              else Inl (StrValueError (int a + 1)))"
    and "format_version (int a) (int b + 1) 0
           = (if b + 1 < 10 ^ max_str_digits then Inr (version_string a (b + 1) 0)
              else Inl (StrValueError (int b + 1)))"
    and "format_version (int a) (int b) (int c + 1)
           = (if c + 1 < 10 ^ max_str_digits then Inr (version_string a b (c + 1))
              else Inl (StrValueError (int c + 1)))"
proof -
  have s: "int n + 1 = int (n + 1)" for n by simp
  have z: "(0::int) = int 0" by simp
  have f: "format_version (int x) (int y) (int z)
             = (if \<not> x < 10 ^ max_str_digits then Inl (StrValueError (int x))
                else if \<not> y < 10 ^ max_str_digits then Inl (StrValueError (int y))
                else if \<not> z < 10 ^ max_str_digits then Inl (StrValueError (int z))
                else Inr (version_string x y z))" for x y z
    using py_str_nat [of x] py_str_nat [of y] py_str_nat [of z]
      py_str_too_big [of x] py_str_too_big [of y] py_str_too_big [of z]
    by (auto simp: format_version_def version_string_def not_less)
  show "format_version (int a + 1) 0 0
           = (if a + 1 < 10 ^ max_str_digits then Inr (version_string (a + 1) 0 0)
              else Inl (StrValueError (int a + 1)))"
    unfolding s using f [of "a + 1" 0 0] by simp
  show "format_version (int a) (int b + 1) 0
           = (if b + 1 < 10 ^ max_str_digits then Inr (version_string a (b + 1) 0)
              else Inl (StrValueError (int b + 1)))"
    unfolding s using f [of a "b + 1" 0] assms by simp
  show "format_version (int a) (int b) (int c + 1)
           = (if c + 1 < 10 ^ max_str_digits then Inr (version_string a b (c + 1))
              else Inl (StrValueError (int c + 1)))"
    unfolding s using f [of a b "c + 1"] assms by simp
qed

lemma digits_replicate: "0 < n \<Longrightarrow> py_isdigit c \<Longrightarrow> digits (replicate n c)"
  by (simp add: digits_def list_all_iff)

lemma digits_val_nines: "digits_val (replicate n (CHR ''9'')) + 1 = 10 ^ n"
proof (induction n)
  case 0
  show ?case by (simp add: digits_val_def)
next
  case (Suc n)
  have r: "replicate (Suc n) (CHR ''9'') = replicate n (CHR ''9'') @ [CHR ''9'']"
    by (simp add: replicate_append_same)
  have d: "digit_val (CHR ''9'') = 9" by (simp add: digit_val_def)
  show ?case unfolding r digits_val_snoc d using Suc by simp
qed

lemma digits_zero: "digits ''0''" "digits_val ''0'' = 0"
  by (simp_all add: digits_def py_isdigit_def digits_val_def digit_val_def)

lemma increment_version_int_limit:
  assumes "digits a" "max_str_digits < length a"
  shows "increment_version (a @ ''.0.0'') t = Inl (IntValueError a)"
proof -
  have "parse_version (a @ ''.'' @ ''0'' @ ''.'' @ ''0'') = Inl (IntValueError a)"
    using parse_version_digits [OF assms(1) digits_zero(1) digits_zero(1)] assms(2) by simp
  then show ?thesis by (simp add: increment_version_def)
qed

lemma increment_version_str_limit:
  "increment_version (replicate max_str_digits (CHR ''9'') @ ''.0.0'') ''major''
     = Inl (StrValueError (10 ^ max_str_digits))"
proof -
  let ?a = "replicate max_str_digits (CHR ''9'')"
  have d: "digits ?a" using limit_ge by (intro digits_replicate) (simp_all add: py_isdigit_def)
  have p: "parse_version (?a @ ''.'' @ ''0'' @ ''.'' @ ''0'') = Inr (int (digits_val ?a), 0, 0)"
    using parse_version_digits [OF d digits_zero(1) digits_zero(1)] limit_ge
    by (simp add: digits_zero(2))
  have "int (digits_val ?a) + 1 = int (digits_val ?a + 1)" by simp
  also have "\<dots> = int (10 ^ max_str_digits)" by (simp only: digits_val_nines)
  finally have v: "int (digits_val ?a) + 1 = int (10 ^ max_str_digits)" .
  have n: "py_str (10 ^ max_str_digits) = None"
    using py_str_too_big [of "10 ^ max_str_digits"] by simp
  have "increment_version (?a @ ''.'' @ ''0'' @ ''.'' @ ''0'') ''major''
          = format_version (int (digits_val ?a) + 1) 0 0"
    using increment_version_parsed [OF p, of "''major''"] by simp
  also have "\<dots> = Inl (StrValueError (int (10 ^ max_str_digits)))"
    unfolding v by (simp add: format_version_def n)
  finally show ?thesis by simp
qed


section \<open>The increment\<close>

text \<open>
  Claim C4, as the specification has it: for every version of three non-negative
  components the increment is greater, with no upper bound on any component. The script
  has a bound, the one of the interpreter's conversions between integers and text. A
  version whose major component is written with 4301 digits is not read: \<^verbatim>\<open>int\<close> raises
  ValueError at line 52, whatever the class. The version of major component
  \<open>10 ^ 4300 - 1\<close>, 4300 nines, is read, and its major increment \<open>10 ^ 4300\<close> is not
  written: the f-string of line 66 raises ValueError. Both texts are versions of three
  digit runs.
\<close>

theorem increment_version_bounded:
  "version_text (replicate 4301 (CHR ''1'') @ ''.0.0'')
   \<and> increment_version (replicate 4301 (CHR ''1'') @ ''.0.0'') ''patch''
       = Inl (IntValueError (replicate 4301 (CHR ''1'')))
   \<and> version_text (replicate 4300 (CHR ''9'') @ ''.0.0'')
   \<and> increment_version (replicate 4300 (CHR ''9'') @ ''.0.0'') ''major''
       = Inl (StrValueError (10 ^ 4300))"
proof -
  have d1: "digits (replicate 4301 (CHR ''1''))"
    by (intro digits_replicate) (simp_all add: py_isdigit_def)
  have d9: "digits (replicate 4300 (CHR ''9''))"
    by (intro digits_replicate) (simp_all add: py_isdigit_def)
  have l: "max_str_digits < length (replicate 4301 (CHR ''1''))"
    by (simp add: max_str_digits_def)
  have t1: "version_text (replicate 4301 (CHR ''1'') @ ''.0.0'')"
    using version_text_digits [OF d1 digits_zero(1) digits_zero(1)] by simp
  have t9: "version_text (replicate 4300 (CHR ''9'') @ ''.0.0'')"
    using version_text_digits [OF d9 digits_zero(1) digits_zero(1)] by simp
  note i1 = increment_version_int_limit [OF d1 l, of "''patch''"]
  note i9 = increment_version_str_limit [unfolded max_str_digits_def]
  show ?thesis using t1 i1 t9 i9 by (intro conjI)
qed

text \<open>
  Claim C4, amended with the bound. For components \<open>a\<close>, \<open>b\<close>, \<open>c\<close> of at most 4300
  digits, written the way the script writes a version, \<^verbatim>\<open>increment_version\<close> reads the
  three components back, and returns the text of \<open>(a+1, 0, 0)\<close> for major, of
  \<open>(a, b+1, 0)\<close> for minor and of \<open>(a, b, c+1)\<close> for patch, as long as the component
  that grows keeps to 4300 digits; where it does not, the ValueError of line 66 is
  raised. Each of the three is greater than \<open>(a, b, c)\<close> in the lexicographic order, the
  patch component is 0 unless the class is patch, and the minor component is 0 for
  major.
\<close>

theorem increment_version_bump:
  assumes "a < 10 ^ max_str_digits" "b < 10 ^ max_str_digits" "c < 10 ^ max_str_digits"
  shows "parse_version (version_string a b c) = Inr (int a, int b, int c)
   \<and> increment_version (version_string a b c) ''major''
       = (if a + 1 < 10 ^ max_str_digits then Inr (version_string (a + 1) 0 0)
          else Inl (StrValueError (int a + 1)))
   \<and> increment_version (version_string a b c) ''minor''
       = (if b + 1 < 10 ^ max_str_digits then Inr (version_string a (b + 1) 0)
          else Inl (StrValueError (int b + 1)))
   \<and> increment_version (version_string a b c) ''patch''
       = (if c + 1 < 10 ^ max_str_digits then Inr (version_string a b (c + 1))
          else Inl (StrValueError (int c + 1)))
   \<and> version_less (int a, int b, int c) (int a + 1, 0, 0)
   \<and> version_less (int a, int b, int c) (int a, int b + 1, 0)
   \<and> version_less (int a, int b, int c) (int a, int b, int c + 1)"
proof -
  note p = parse_version_string [OF assms]
  note f = format_version_succ [OF assms]
  have "increment_version (version_string a b c) ''major'' = format_version (int a + 1) 0 0"
    "increment_version (version_string a b c) ''minor'' = format_version (int a) (int b + 1) 0"
    "increment_version (version_string a b c) ''patch'' = format_version (int a) (int b) (int c + 1)"
    using increment_version_parsed [OF p] by simp_all
  then show ?thesis unfolding f using p by simp
qed

theorem increment_version_bump_witness:
  "increment_version ''9.9.9'' ''major'' = Inr ''10.0.0''
   \<and> increment_version ''1.2.3'' ''minor'' = Inr ''1.3.0''
   \<and> increment_version ''0.0.0'' ''patch'' = Inr ''0.0.1''"
proof -
  have f: "version_string 9 9 9 = ''9.9.9''"
    "version_string (9 + 1) 0 0 = ''10.0.0''"
    "version_string 1 2 3 = ''1.2.3''"
    "version_string 1 (2 + 1) 0 = ''1.3.0''"
    "version_string 0 0 0 = ''0.0.0''"
    "version_string 0 0 (0 + 1) = ''0.0.1''"
    by code_simp+
  have b: "(0::nat) < 10 ^ max_str_digits" "(1::nat) < 10 ^ max_str_digits"
    "(2::nat) < 10 ^ max_str_digits" "(3::nat) < 10 ^ max_str_digits"
    "(9::nat) < 10 ^ max_str_digits" "(9::nat) + 1 < 10 ^ max_str_digits"
    "(2::nat) + 1 < 10 ^ max_str_digits" "(0::nat) + 1 < 10 ^ max_str_digits"
    by (rule below_limit, simp)+
  show ?thesis
    using increment_version_bump [OF b(5) b(5) b(5)] increment_version_bump [OF b(2) b(3) b(4)]
      increment_version_bump [OF b(1) b(1) b(1)]
    unfolding f if_P [OF b(6)] if_P [OF b(7)] if_P [OF b(8)] by blast
qed


section \<open>Classification and the loop guard\<close>

text \<open>
  Claim C5. The class of a commit message is decided by a case-insensitive search for the
  markers anywhere in the message, in a fixed order: major if \<^verbatim>\<open>[major]\<close> occurs, whatever
  else does; minor if \<^verbatim>\<open>[minor]\<close> occurs and \<^verbatim>\<open>[major]\<close> does not, also beside
  \<^verbatim>\<open>[patch]\<close>; patch otherwise, so also for a message with no marker.
\<close>

theorem classification_priority:
  "parse_commit_message_for_increment message =
     (if occurs_ci ''[major]'' message then ''major''
      else if occurs_ci ''[minor]'' message then ''minor''
      else ''patch'')"
  by (simp add: parse_commit_message_for_increment_def occurs_ci_iff Let_def)

theorem classification_priority_witness:
  "parse_commit_message_for_increment ''fix [patch] [Minor] and [MAJOR] too'' = ''major''
   \<and> parse_commit_message_for_increment ''[PATCH] first, then [mInOr]'' = ''minor''
   \<and> parse_commit_message_for_increment ''no marker at all'' = ''patch''"
proof -
  have a: "py_in ''[major]'' (py_lower ''fix [patch] [Minor] and [MAJOR] too'')" by code_simp
  have b: "\<not> py_in ''[major]'' (py_lower ''[PATCH] first, then [mInOr]'')" by code_simp
  have c: "py_in ''[minor]'' (py_lower ''[PATCH] first, then [mInOr]'')" by code_simp
  have d: "\<not> py_in ''[major]'' (py_lower ''no marker at all'')" by code_simp
  have e: "\<not> py_in ''[minor]'' (py_lower ''no marker at all'')" by code_simp
  show ?thesis
    using classification_priority [of "''fix [patch] [Minor] and [MAJOR] too''"]
      classification_priority [of "''[PATCH] first, then [mInOr]''"]
      classification_priority [of "''no marker at all''"]
      a b c d e
    by (simp only: occurs_ci_iff if_True if_False simp_thms)
qed


text \<open>
  Claim C6. \<^verbatim>\<open>should_skip_version_update\<close> holds exactly for the messages in which one
  of the phrases \<^verbatim>\<open>auto-increment version\<close> and \<^verbatim>\<open>chore: auto-increment\<close> occurs, in any
  letter case, and none of the three markers does: a marker in a message of the loop
  guard switches the guard off.
\<close>

theorem skip_iff:
  "should_skip_version_update message \<longleftrightarrow>
     (occurs_ci ''auto-increment version'' message \<or> occurs_ci ''chore: auto-increment'' message)
     \<and> \<not> occurs_ci ''[major]'' message
     \<and> \<not> occurs_ci ''[minor]'' message
     \<and> \<not> occurs_ci ''[patch]'' message"
  by (simp add: should_skip_version_update_def occurs_ci_iff Let_def)


theorem skip_iff_witness:
  "should_skip_version_update ''chore: auto-increment version [skip ci]''
   \<and> \<not> should_skip_version_update ''chore: auto-increment version [Patch]''
   \<and> \<not> should_skip_version_update ''Fix the parser''"
proof -
  have a: "py_in ''auto-increment version'' (py_lower ''chore: auto-increment version [skip ci]'')"
    "\<not> py_in ''[major]'' (py_lower ''chore: auto-increment version [skip ci]'')"
    "\<not> py_in ''[minor]'' (py_lower ''chore: auto-increment version [skip ci]'')"
    "\<not> py_in ''[patch]'' (py_lower ''chore: auto-increment version [skip ci]'')"
    "py_in ''[patch]'' (py_lower ''chore: auto-increment version [Patch]'')"
    "\<not> py_in ''auto-increment version'' (py_lower ''Fix the parser'')"
    "\<not> py_in ''chore: auto-increment'' (py_lower ''Fix the parser'')"
    by code_simp+
  show ?thesis
    using skip_iff [of "''chore: auto-increment version [skip ci]''"]
      skip_iff [of "''chore: auto-increment version [Patch]''"]
      skip_iff [of "''Fix the parser''"] a
    by (simp only: occurs_ci_iff simp_thms)
qed


section \<open>What a match of the read pattern captures\<close>

lemma re_match_One:
  assumes "re_match (One p # r) s rec cap = Some m"
  shows "\<exists>c cs. s = c # cs \<and> p c \<and> re_match r cs rec (if rec then c # cap else cap) = Some m"
  using assms by (cases s) (auto split: if_splits)

lemma re_match_Many_True:
  assumes "re_match (Many p # r) s True cap = Some m"
  shows "\<exists>xs ys. s = xs @ ys \<and> list_all p xs \<and> re_match r ys True (rev xs @ cap) = Some m"
  using assms
proof (induction s arbitrary: cap)
  case Nil
  show ?case
  proof (intro exI conjI)
    show "[] = [] @ []" by simp
    show "list_all p []" by simp
    show "re_match r [] True (rev [] @ cap) = Some m" using Nil by simp
  qed
next
  case (Cons c cs)
  show ?case
  proof (cases "p c \<and> re_match (Many p # r) cs True (c # cap) \<noteq> None")
    case True
    with Cons.prems have "re_match (Many p # r) cs True (c # cap) = Some m" by auto
    from Cons.IH [OF this] obtain xs ys where x: "cs = xs @ ys" "list_all p xs"
      "re_match r ys True (rev xs @ c # cap) = Some m" by blast
    show ?thesis
    proof (intro exI conjI)
      show "c # cs = (c # xs) @ ys" using x by simp
      show "list_all p (c # xs)" using x True by simp
      show "re_match r ys True (rev (c # xs) @ cap) = Some m" using x by simp
    qed
  next
    case False
    with Cons.prems have f: "re_match r (c # cs) True cap = Some m"
      by (auto split: if_splits option.splits)
    show ?thesis
    proof (intro exI conjI)
      show "c # cs = [] @ c # cs" by simp
      show "list_all p []" by simp
      show "re_match r (c # cs) True (rev [] @ cap) = Some m" using f by simp
    qed
  qed
qed

lemma re_match_Many_False:
  assumes "re_match (Many p # r) s False cap = Some m"
  shows "\<exists>xs ys. s = xs @ ys \<and> list_all p xs \<and> re_match r ys False cap = Some m"
  using assms
proof (induction s)
  case Nil
  show ?case
  proof (intro exI conjI)
    show "[] = [] @ []" by simp
    show "list_all p []" by simp
    show "re_match r [] False cap = Some m" using Nil by simp
  qed
next
  case (Cons c cs)
  show ?case
  proof (cases "p c \<and> re_match (Many p # r) cs False cap \<noteq> None")
    case True
    with Cons.prems have "re_match (Many p # r) cs False cap = Some m" by auto
    from Cons.IH [OF this] obtain xs ys where x: "cs = xs @ ys" "list_all p xs"
      "re_match r ys False cap = Some m" by blast
    show ?thesis
    proof (intro exI conjI)
      show "c # cs = (c # xs) @ ys" using x by simp
      show "list_all p (c # xs)" using x True by simp
      show "re_match r ys False cap = Some m" using x by simp
    qed
  next
    case False
    with Cons.prems have f: "re_match r (c # cs) False cap = Some m"
      by (auto split: if_splits option.splits)
    show ?thesis
    proof (intro exI conjI)
      show "c # cs = [] @ c # cs" by simp
      show "list_all p []" by simp
      show "re_match r (c # cs) False cap = Some m" using f by simp
    qed
  qed
qed

lemma re_match_lit:
  assumes "re_match (lit w @ r) s False cap = Some m"
  shows "\<exists>ys. s = w @ ys \<and> re_match r ys False cap = Some m"
  using assms
proof (induction w arbitrary: s)
  case Nil
  then show ?case by (simp add: lit_def)
next
  case (Cons x w)
  from Cons.prems have "re_match (One (\<lambda>y. y = x) # (lit w @ r)) s False cap = Some m"
    by (simp add: lit_def)
  from re_match_One [OF this] obtain cs where s: "s = x # cs"
    and m: "re_match (lit w @ r) cs False cap = Some m" by auto
  from Cons.IH [OF m] obtain ys where "cs = w @ ys" "re_match r ys False cap = Some m" by blast
  with s have "s = (x # w) @ ys \<and> re_match r ys False cap = Some m" by simp
  then show ?case by blast
qed

lemma re_search_match:
  assumes "re_search pat s = Some g"
  shows "\<exists>pre t m. s = pre @ t \<and> re_match pat t False [] = Some m \<and> fst m = g"
  using assms
proof (induction s)
  case Nil
  then show ?case by auto
next
  case (Cons c cs)
  show ?case
  proof (cases "re_match pat (c # cs) False []")
    case None
    with Cons.prems have "re_search pat cs = Some g" by simp
    from Cons.IH [OF this] obtain pre t m where "cs = pre @ t" "re_match pat t False [] = Some m" "fst m = g"
      by blast
    then have "c # cs = (c # pre) @ t" by simp
    then show ?thesis using \<open>re_match pat t False [] = Some m\<close> \<open>fst m = g\<close> by blast
  next
    case (Some m)
    with Cons.prems have "fst m = g" by simp
    with Some have "c # cs = [] @ c # cs \<and> re_match pat (c # cs) False [] = Some m \<and> fst m = g"
      by simp
    then show ?thesis by blast
  qed
qed

lemma read_pattern_group:
  assumes "re_match version_read_pattern s False [] = Some m"
  shows "\<exists>a b c. fst m = a @ ''.'' @ b @ ''.'' @ c \<and> digits a \<and> digits b \<and> digits c"
proof -
  let ?tail = "[Many py_isspace, One (\<lambda>c. c = CHR ''=''), Many py_isspace, One is_quote,
      GroupOpen,
      One py_isdigit, Many py_isdigit, One is_dot,
      One py_isdigit, Many py_isdigit, One is_dot,
      One py_isdigit, Many py_isdigit,
      GroupClose,
      One is_quote]"
  from assms have "re_match (lit ''__version__'' @ ?tail) s False [] = Some m"
    by (simp add: version_read_pattern_def)
  from re_match_lit [OF this] obtain s1 where
    m1: "re_match ?tail s1 False [] = Some m" by auto
  from re_match_Many_False [OF m1] obtain s2 where
    m2: "re_match (tl ?tail) s2 False [] = Some m" by auto
  from re_match_One [OF m2 [simplified]] obtain s3 where
    m3: "re_match (drop 2 ?tail) s3 False [] = Some m" by auto
  from re_match_Many_False [OF m3 [simplified]] obtain s4 where
    m4: "re_match (drop 3 ?tail) s4 False [] = Some m" by auto
  from re_match_One [OF m4 [simplified]] obtain s5 where
    m5: "re_match (drop 4 ?tail) s5 False [] = Some m" by auto
  then have m5': "re_match (drop 5 ?tail) s5 True [] = Some m" by simp
  from re_match_One [OF m5' [simplified]] obtain a1 s6 where a1: "py_isdigit a1" and
    m6: "re_match (drop 6 ?tail) s6 True [a1] = Some m" by auto
  from re_match_Many_True [OF m6 [simplified]] obtain as s7 where as: "list_all py_isdigit as" and
    m7: "re_match (drop 7 ?tail) s7 True (rev as @ [a1]) = Some m" by auto
  from re_match_One [OF m7 [simplified]] obtain d1 s8 where d1: "is_dot d1" and
    m8: "re_match (drop 8 ?tail) s8 True (d1 # rev as @ [a1]) = Some m" by auto
  from re_match_One [OF m8 [simplified]] obtain b1 s9 where b1: "py_isdigit b1" and
    m9: "re_match (drop 9 ?tail) s9 True (b1 # d1 # rev as @ [a1]) = Some m" by auto
  from re_match_Many_True [OF m9 [simplified]] obtain bs s10 where bs: "list_all py_isdigit bs" and
    m10: "re_match (drop 10 ?tail) s10 True (rev bs @ b1 # d1 # rev as @ [a1]) = Some m" by auto
  from re_match_One [OF m10 [simplified]] obtain d2 s11 where d2: "is_dot d2" and
    m11: "re_match (drop 11 ?tail) s11 True (d2 # rev bs @ b1 # d1 # rev as @ [a1]) = Some m" by auto
  from re_match_One [OF m11 [simplified]] obtain c1 s12 where c1: "py_isdigit c1" and
    m12: "re_match (drop 12 ?tail) s12 True (c1 # d2 # rev bs @ b1 # d1 # rev as @ [a1]) = Some m" by auto
  from re_match_Many_True [OF m12 [simplified]] obtain cs s13 where cs: "list_all py_isdigit cs" and
    m13: "re_match (drop 13 ?tail) s13 True (rev cs @ c1 # d2 # rev bs @ b1 # d1 # rev as @ [a1]) = Some m"
    by auto
  then have m13': "re_match [One is_quote] s13 False (rev cs @ c1 # d2 # rev bs @ b1 # d1 # rev as @ [a1]) = Some m"
    by simp
  from re_match_One [OF m13'] obtain s14 where
    "re_match [] s14 False (rev cs @ c1 # d2 # rev bs @ b1 # d1 # rev as @ [a1]) = Some m" by auto
  then have "fst m = (a1 # as) @ ''.'' @ (b1 # bs) @ ''.'' @ (c1 # cs)"
    using d1 d2 by (auto simp: is_dot_def)
  moreover have "digits (a1 # as)" "digits (b1 # bs)" "digits (c1 # cs)"
    using a1 as b1 bs c1 cs by (simp_all add: digits_def)
  ultimately show ?thesis by blast
qed


section \<open>Matches of the two patterns\<close>

lemma re_sub_no_match:
  assumes "re_search pat s = None"
  shows "re_sub pat repl s = s"
  using assms
proof (induction s)
  case Nil
  then show ?case by (simp split: option.splits)
next
  case (Cons c cs)
  then show ?case by (simp split: option.splits)
qed


lemma re_match_lit_step: "re_match (lit w @ r) (w @ ys) False cap = re_match r ys False cap"
  by (induction w) (simp_all add: lit_def)

lemma re_match_Many_greedy_False:
  assumes "list_all p xs" "ys = [] \<or> \<not> p (hd ys)" "re_match r ys False cap = Some m"
  shows "re_match (Many p # r) (xs @ ys) False cap = Some m"
  using assms(1)
proof (induction xs)
  case Nil
  show ?case using assms(2,3) by (cases ys) auto
next
  case (Cons c cs)
  then show ?case by simp
qed

lemma re_match_Many_greedy_True:
  assumes "list_all p xs" "ys = [] \<or> \<not> p (hd ys)" "re_match r ys True (rev xs @ cap) = Some m"
  shows "re_match (Many p # r) (xs @ ys) True cap = Some m"
  using assms(1,3)
proof (induction xs arbitrary: cap)
  case Nil
  then show ?case using assms(2) by (cases ys) auto
next
  case (Cons c cs)
  then show ?case by simp
qed

lemma space_facts:
  "py_isspace (CHR '' '')" "\<not> py_isspace (CHR ''='')" "\<not> py_isspace dquote" "\<not> py_isspace squote"
  by (simp_all add: py_isspace_def dquote_def squote_def)

lemma quote_facts:
  "is_quote dquote" "is_quote squote" "\<not> py_isdigit dquote" "\<not> py_isdigit squote"
  "\<not> py_isdigit (CHR ''.'')" "not_quote (CHR ''.'')" "\<not> py_isspace (CHR ''.'')"
  by (simp_all add: is_quote_def isdigit_iff dquote_def squote_def not_quote_def py_isspace_def)

lemma digit_not_quote: "py_isdigit c \<Longrightarrow> not_quote c"
  using isdigit_not_special(7) by (simp add: not_quote_def)

lemma read_pattern_digits:
  assumes "digits x" "digits y" "digits z"
    and "is_quote q1" "is_quote q2" "list_all py_isspace w1" "list_all py_isspace w2"
  shows "re_match version_read_pattern
           (''__version__'' @ w1 @ ''='' @ w2 @ [q1] @ (x @ ''.'' @ y @ ''.'' @ z) @ [q2] @ rest)
           False []
         = Some (x @ ''.'' @ y @ ''.'' @ z, rest)"
proof -
  from assms(1) obtain x1 xs where x: "x = x1 # xs" "py_isdigit x1" "list_all py_isdigit xs"
    by (cases x) (auto simp: digits_def)
  from assms(2) obtain y1 ys where y: "y = y1 # ys" "py_isdigit y1" "list_all py_isdigit ys"
    by (cases y) (auto simp: digits_def)
  from assms(3) obtain z1 zs where z: "z = z1 # zs" "py_isdigit z1" "list_all py_isdigit zs"
    by (cases z) (auto simp: digits_def)
  have nsq: "\<not> py_isspace q1" using assms(4) space_facts by (auto simp: is_quote_def)
  have ndq: "\<not> py_isdigit q2" using assms(5) quote_facts by (auto simp: is_quote_def)
  have e: "re_match [One is_quote] (q2 # rest) False (rev zs @ z1 # CHR ''.'' # rev ys @ y1 # CHR ''.'' # rev xs @ [x1])
        = Some (x @ ''.'' @ y @ ''.'' @ z, rest)"
    using assms(5) x y z by simp
  have d3: "re_match [Many py_isdigit, GroupClose, One is_quote] (zs @ q2 # rest) True
              (z1 # CHR ''.'' # rev ys @ y1 # CHR ''.'' # rev xs @ [x1])
        = Some (x @ ''.'' @ y @ ''.'' @ z, rest)"
    by (rule re_match_Many_greedy_True [OF z(3)]) (use ndq e in simp_all)
  have d2: "re_match [Many py_isdigit, One is_dot, One py_isdigit, Many py_isdigit, GroupClose, One is_quote]
              (ys @ CHR ''.'' # z1 # zs @ q2 # rest) True
              (y1 # CHR ''.'' # rev xs @ [x1])
        = Some (x @ ''.'' @ y @ ''.'' @ z, rest)"
    by (rule re_match_Many_greedy_True [OF y(3)]) (use quote_facts z d3 in \<open>simp_all add: is_dot_def\<close>)
  have d1: "re_match [Many py_isdigit, One is_dot, One py_isdigit, Many py_isdigit, One is_dot,
               One py_isdigit, Many py_isdigit, GroupClose, One is_quote]
              (xs @ CHR ''.'' # y1 # ys @ CHR ''.'' # z1 # zs @ q2 # rest) True [x1]
        = Some (x @ ''.'' @ y @ ''.'' @ z, rest)"
    by (rule re_match_Many_greedy_True [OF x(3)]) (use quote_facts y d2 in \<open>simp_all add: is_dot_def\<close>)
  have g: "re_match [One is_quote, GroupOpen, One py_isdigit, Many py_isdigit, One is_dot,
               One py_isdigit, Many py_isdigit, One is_dot,
               One py_isdigit, Many py_isdigit, GroupClose, One is_quote]
              (q1 # x1 # xs @ CHR ''.'' # y1 # ys @ CHR ''.'' # z1 # zs @ q2 # rest) False []
        = Some (x @ ''.'' @ y @ ''.'' @ z, rest)"
    using assms(4) x(2) d1 by simp
  have s2: "re_match [Many py_isspace, One is_quote, GroupOpen, One py_isdigit, Many py_isdigit, One is_dot,
               One py_isdigit, Many py_isdigit, One is_dot,
               One py_isdigit, Many py_isdigit, GroupClose, One is_quote]
              (w2 @ q1 # x1 # xs @ CHR ''.'' # y1 # ys @ CHR ''.'' # z1 # zs @ q2 # rest) False []
        = Some (x @ ''.'' @ y @ ''.'' @ z, rest)"
    by (rule re_match_Many_greedy_False [OF assms(7)]) (use nsq g in simp_all)
  have s1: "re_match [Many py_isspace, One (\<lambda>c. c = CHR ''=''), Many py_isspace, One is_quote, GroupOpen,
               One py_isdigit, Many py_isdigit, One is_dot,
               One py_isdigit, Many py_isdigit, One is_dot,
               One py_isdigit, Many py_isdigit, GroupClose, One is_quote]
              (w1 @ CHR ''='' # w2 @ q1 # x1 # xs @ CHR ''.'' # y1 # ys @ CHR ''.'' # z1 # zs @ q2 # rest) False []
        = Some (x @ ''.'' @ y @ ''.'' @ z, rest)"
    by (rule re_match_Many_greedy_False [OF assms(6)]) (use space_facts s2 in simp_all)
  have "re_match version_read_pattern
           (''__version__'' @ (w1 @ CHR ''='' # w2 @ q1 # x1 # xs @ CHR ''.'' # y1 # ys @ CHR ''.'' # z1 # zs @ q2 # rest))
           False []
         = Some (x @ ''.'' @ y @ ''.'' @ z, rest)"
    unfolding version_read_pattern_def re_match_lit_step by (rule s1)
  then show ?thesis using x y z by simp
qed

lemma write_pattern_matches:
  assumes "digits x" "digits y" "digits z"
    and "is_quote q1" "is_quote q2" "list_all py_isspace w1" "list_all py_isspace w2"
  shows "re_match version_write_pattern
           (''__version__'' @ w1 @ ''='' @ w2 @ [q1] @ (x @ ''.'' @ y @ ''.'' @ z) @ [q2] @ rest)
           False []
         = Some ([], rest)"
proof -
  from assms(1) obtain x1 xs where x: "x = x1 # xs" "py_isdigit x1"
    by (cases x) (auto simp: digits_def)
  have nq: "list_all not_quote (xs @ ''.'' @ y @ ''.'' @ z)"
    using assms(1-3) x quote_facts digit_not_quote by (auto simp: digits_def list_all_iff)
  have nsq: "\<not> py_isspace q1" using assms(4) space_facts by (auto simp: is_quote_def)
  have e: "re_match [One is_quote] (q2 # rest) False [] = Some ([], rest)"
    using assms(5) by simp
  have b: "re_match [Many not_quote, One is_quote] ((xs @ ''.'' @ y @ ''.'' @ z) @ q2 # rest) False []
           = Some ([], rest)"
    by (rule re_match_Many_greedy_False [OF nq]) (use assms(5) e in \<open>simp_all add: not_quote_def\<close>)
  have g: "re_match [One is_quote, One not_quote, Many not_quote, One is_quote]
             (q1 # x1 # (xs @ ''.'' @ y @ ''.'' @ z) @ q2 # rest) False [] = Some ([], rest)"
    using assms(4) x(2) digit_not_quote b by simp
  have s2: "re_match [Many py_isspace, One is_quote, One not_quote, Many not_quote, One is_quote]
             (w2 @ q1 # x1 # (xs @ ''.'' @ y @ ''.'' @ z) @ q2 # rest) False [] = Some ([], rest)"
    by (rule re_match_Many_greedy_False [OF assms(7)]) (use nsq g in simp_all)
  have s1: "re_match [Many py_isspace, One (\<lambda>c. c = CHR ''=''), Many py_isspace, One is_quote,
               One not_quote, Many not_quote, One is_quote]
             (w1 @ CHR ''='' # w2 @ q1 # x1 # (xs @ ''.'' @ y @ ''.'' @ z) @ q2 # rest) False []
           = Some ([], rest)"
    by (rule re_match_Many_greedy_False [OF assms(6)]) (use space_facts s2 in simp_all)
  have "re_match version_write_pattern
           (''__version__'' @ (w1 @ CHR ''='' # w2 @ q1 # x1 # (xs @ ''.'' @ y @ ''.'' @ z) @ q2 # rest))
           False [] = Some ([], rest)"
    unfolding version_write_pattern_def re_match_lit_step by (rule s1)
  then show ?thesis using x by simp
qed

lemma read_pattern_shape:
  assumes "re_match version_read_pattern s False [] = Some m"
  shows "\<exists>w1 w2 q1 q2 x y z rest.
           s = ''__version__'' @ w1 @ ''='' @ w2 @ [q1] @ (x @ ''.'' @ y @ ''.'' @ z) @ [q2] @ rest
           \<and> list_all py_isspace w1 \<and> list_all py_isspace w2 \<and> is_quote q1 \<and> is_quote q2
           \<and> digits x \<and> digits y \<and> digits z \<and> m = (x @ ''.'' @ y @ ''.'' @ z, rest)"
proof -
  let ?tail = "[Many py_isspace, One (\<lambda>c. c = CHR ''=''), Many py_isspace, One is_quote,
      GroupOpen,
      One py_isdigit, Many py_isdigit, One is_dot,
      One py_isdigit, Many py_isdigit, One is_dot,
      One py_isdigit, Many py_isdigit,
      GroupClose,
      One is_quote]"
  from assms have "re_match (lit ''__version__'' @ ?tail) s False [] = Some m"
    by (simp add: version_read_pattern_def)
  from re_match_lit [OF this] obtain s1 where e1: "s = ''__version__'' @ s1" and
    m1: "re_match ?tail s1 False [] = Some m" by auto
  from re_match_Many_False [OF m1] obtain w1 s2 where e2: "s1 = w1 @ s2" and w1: "list_all py_isspace w1" and
    m2: "re_match (tl ?tail) s2 False [] = Some m" by auto
  from re_match_One [OF m2 [simplified]] obtain s3 where e3: "s2 = CHR ''='' # s3" and
    m3: "re_match (drop 2 ?tail) s3 False [] = Some m" by auto
  from re_match_Many_False [OF m3 [simplified]] obtain w2 s4 where e4: "s3 = w2 @ s4" and
    w2: "list_all py_isspace w2" and
    m4: "re_match (drop 3 ?tail) s4 False [] = Some m" by auto
  from re_match_One [OF m4 [simplified]] obtain q1 s5 where e5: "s4 = q1 # s5" and q1: "is_quote q1" and
    m5: "re_match (drop 4 ?tail) s5 False [] = Some m" by auto
  then have m5': "re_match (drop 5 ?tail) s5 True [] = Some m" by simp
  from re_match_One [OF m5' [simplified]] obtain a1 s6 where e6: "s5 = a1 # s6" and a1: "py_isdigit a1" and
    m6: "re_match (drop 6 ?tail) s6 True [a1] = Some m" by auto
  from re_match_Many_True [OF m6 [simplified]] obtain as s7 where e7: "s6 = as @ s7" and
    as: "list_all py_isdigit as" and
    m7: "re_match (drop 7 ?tail) s7 True (rev as @ [a1]) = Some m" by auto
  from re_match_One [OF m7 [simplified]] obtain d1 s8 where e8: "s7 = d1 # s8" and d1: "is_dot d1" and
    m8: "re_match (drop 8 ?tail) s8 True (d1 # rev as @ [a1]) = Some m" by auto
  from re_match_One [OF m8 [simplified]] obtain b1 s9 where e9: "s8 = b1 # s9" and b1: "py_isdigit b1" and
    m9: "re_match (drop 9 ?tail) s9 True (b1 # d1 # rev as @ [a1]) = Some m" by auto
  from re_match_Many_True [OF m9 [simplified]] obtain bs s10 where e10: "s9 = bs @ s10" and
    bs: "list_all py_isdigit bs" and
    m10: "re_match (drop 10 ?tail) s10 True (rev bs @ b1 # d1 # rev as @ [a1]) = Some m" by auto
  from re_match_One [OF m10 [simplified]] obtain d2 s11 where e11: "s10 = d2 # s11" and d2: "is_dot d2" and
    m11: "re_match (drop 11 ?tail) s11 True (d2 # rev bs @ b1 # d1 # rev as @ [a1]) = Some m" by auto
  from re_match_One [OF m11 [simplified]] obtain c1 s12 where e12: "s11 = c1 # s12" and c1: "py_isdigit c1" and
    m12: "re_match (drop 12 ?tail) s12 True (c1 # d2 # rev bs @ b1 # d1 # rev as @ [a1]) = Some m" by auto
  from re_match_Many_True [OF m12 [simplified]] obtain cs s13 where e13: "s12 = cs @ s13" and
    cs: "list_all py_isdigit cs" and
    m13: "re_match (drop 13 ?tail) s13 True (rev cs @ c1 # d2 # rev bs @ b1 # d1 # rev as @ [a1]) = Some m"
    by auto
  then have m13': "re_match [One is_quote] s13 False (rev cs @ c1 # d2 # rev bs @ b1 # d1 # rev as @ [a1]) = Some m"
    by simp
  from re_match_One [OF m13'] obtain q2 s14 where e14: "s13 = q2 # s14" and q2: "is_quote q2" and
    m14: "re_match [] s14 False (rev cs @ c1 # d2 # rev bs @ b1 # d1 # rev as @ [a1]) = Some m" by auto
  have m: "m = ((a1 # as) @ ''.'' @ (b1 # bs) @ ''.'' @ (c1 # cs), s14)"
    using m14 d1 d2 by (auto simp: is_dot_def)
  have s: "s = ''__version__'' @ w1 @ ''='' @ w2 @ [q1]
               @ ((a1 # as) @ ''.'' @ (b1 # bs) @ ''.'' @ (c1 # cs)) @ [q2] @ s14"
    using e1 e2 e3 e4 e5 e6 e7 e8 e9 e10 e11 e12 e13 e14 d1 d2 by (simp add: is_dot_def)
  have d: "digits (a1 # as)" "digits (b1 # bs)" "digits (c1 # cs)"
    using a1 as b1 bs c1 cs by (simp_all add: digits_def)
  from s w1 w2 q1 q2 d m show ?thesis by (intro exI conjI)
qed

lemma append_prefix_without:
  assumes "u @ (c # t) = r @ rest" "c \<notin> set r"
  shows "\<exists>u'. u = r @ u'"
proof -
  from assms(1) consider us where "u = r @ us" | us where "u @ us = r" "c # t = us @ rest"
    by (auto simp: append_eq_append_conv2)
  then show ?thesis
  proof cases
    case 1
    then show ?thesis by blast
  next
    case 2
    show ?thesis
    proof (cases us)
      case Nil
      with 2 have "u = r @ []" by simp
      then show ?thesis by (rule exI)
    next
      case (Cons a as)
      with 2 have "c \<in> set r" by auto
      with assms(2) show ?thesis by simp
    qed
  qed
qed

lemma underscore_facts:
  "\<not> py_isspace (CHR ''_'')" "\<not> is_quote (CHR ''_'')" "\<not> py_isdigit (CHR ''_'')"
  "\<not> py_isspace (CHR ''v'')"
  by (simp_all add: py_isspace_def is_quote_def dquote_def squote_def isdigit_iff)

lemma version_assignment_unfold:
  "version_assignment v @ tail = ''__version__'' @ '' '' @ ''='' @ '' '' @ [dquote] @ v @ [dquote] @ tail"
  by (simp add: version_assignment_def)

lemma no_read_match_before:
  assumes "re_match version_write_pattern (u @ w) False [] = None" "u \<noteq> []"
  shows "re_match version_read_pattern (u @ version_assignment v @ tail) False [] = None"
proof (rule ccontr)
  assume "re_match version_read_pattern (u @ version_assignment v @ tail) False [] \<noteq> None"
  then obtain m where "re_match version_read_pattern (u @ version_assignment v @ tail) False [] = Some m"
    by blast
  from read_pattern_shape [OF this] obtain w1 w2 q1 q2 x y z rest where
    s: "u @ version_assignment v @ tail
        = ''__version__'' @ w1 @ ''='' @ w2 @ [q1] @ (x @ ''.'' @ y @ ''.'' @ z) @ [q2] @ rest"
    and c: "list_all py_isspace w1" "list_all py_isspace w2" "is_quote q1" "is_quote q2"
      "digits x" "digits y" "digits z"
    by blast
  define R where "R = w1 @ ''='' @ w2 @ [q1] @ (x @ ''.'' @ y @ ''.'' @ z) @ [q2]"
  define B where "B = '' = '' @ [dquote] @ v @ [dquote] @ tail"
  have s': "u @ ''__version__'' @ B = ''__version__'' @ R @ rest"
    using s by (simp add: R_def B_def version_assignment_def)
  have hR: "py_isspace (hd (R @ rest)) \<or> hd (R @ rest) = CHR ''=''"
    using c(1) by (cases w1) (simp_all add: R_def)
  have nR: "CHR ''_'' \<notin> set R"
    using c underscore_facts isdigit_not_special(4)
    by (auto simp: R_def digits_def list_all_iff)
  show False
  proof (cases "length u < 11")
    case True
    from s' have d: "''__version__'' @ B = drop (length u) (''__version__'' @ R @ rest)"
      by (metis append_eq_conv_conj)
    have lu: "0 < length u" using assms(2) by simp
    have n: "length u \<noteq> 1" "length u \<noteq> 2" "length u \<noteq> 3" "length u \<noteq> 4"
      "length u \<noteq> 5" "length u \<noteq> 6" "length u \<noteq> 7" "length u \<noteq> 8"
      using d by auto
    have n9: "length u \<noteq> 9"
    proof
      assume "length u = 9"
      with d have "R @ rest = ''version__'' @ B" by simp
      with hR show False by (simp add: py_isspace_def)
    qed
    have n10: "length u \<noteq> 10"
    proof
      assume "length u = 10"
      with d have "R @ rest = ''_version__'' @ B" by simp
      with hR show False by (simp add: py_isspace_def)
    qed
    from lu n(1) have "2 \<le> length u" by linarith
    with n(2) have "3 \<le> length u" by linarith
    with n(3) have "4 \<le> length u" by linarith
    with n(4) have "5 \<le> length u" by linarith
    with n(5) have "6 \<le> length u" by linarith
    with n(6) have "7 \<le> length u" by linarith
    with n(7) have "8 \<le> length u" by linarith
    with n(8) have "9 \<le> length u" by linarith
    with n9 have "10 \<le> length u" by linarith
    with n10 True show False by linarith
  next
    case False
    have "take 11 (u @ ''__version__'' @ B) = take 11 (''__version__'' @ R @ rest)"
      using s' by simp
    then have "take 11 u = ''__version__''" using False by simp
    then have "u = ''__version__'' @ drop 11 u" by (metis append_take_drop_id)
    then obtain u' where u: "u = ''__version__'' @ u'" ..
    with s' have "u' @ (CHR ''_'' # ''_version__'' @ B) = R @ rest" by simp
    from append_prefix_without [OF this nR] obtain u'' where "u' = R @ u''" by blast
    with u have "u @ w = ''__version__'' @ w1 @ ''='' @ w2 @ [q1] @ (x @ ''.'' @ y @ ''.'' @ z) @ [q2] @ (u'' @ w)"
      by (simp add: R_def)
    with write_pattern_matches [OF c(5-7) c(3,4) c(1,2), of "u'' @ w"] assms(1)
    show False by simp
  qed
qed

lemma re_sub_first:
  assumes "re_search pat s \<noteq> None"
  shows "\<exists>pre w tail. s = pre @ w \<and> re_match pat w False [] \<noteq> None
           \<and> re_sub pat repl s = pre @ repl @ tail"
  using assms
proof (induction s)
  case Nil
  then have "[] = [] @ [] \<and> re_match pat [] False [] \<noteq> None
     \<and> re_sub pat repl [] = [] @ repl @ []"
    by (auto split: option.splits)
  then show ?case by (intro exI)
next
  case (Cons c cs)
  show ?case
  proof (cases "re_match pat (c # cs) False []")
    case None
    with Cons.prems have "re_search pat cs \<noteq> None" by simp
    from Cons.IH [OF this] obtain pre w tail where
      p: "cs = pre @ w" "re_match pat w False [] \<noteq> None" "re_sub pat repl cs = pre @ repl @ tail"
      by blast
    with None have "c # cs = (c # pre) @ w \<and> re_match pat w False [] \<noteq> None
      \<and> re_sub pat repl (c # cs) = (c # pre) @ repl @ tail" by simp
    then show ?thesis by (intro exI)
  next
    case (Some m)
    define tail where "tail =
      (if length (snd m) < length (c # cs) then re_sub pat repl (snd m) else c # re_sub pat repl cs)"
    from Some have "c # cs = [] @ c # cs \<and> re_match pat (c # cs) False [] \<noteq> None
      \<and> re_sub pat repl (c # cs) = [] @ repl @ tail" by (simp add: tail_def)
    then show ?thesis by (intro exI)
  qed
qed

lemma re_search_here:
  "re_match pat s False [] = Some m \<Longrightarrow> re_search pat s = Some (fst m)"
  by (cases s) simp_all

lemma read_assignment:
  assumes "digits x" "digits y" "digits z"
  shows "re_search version_read_pattern (version_assignment (x @ ''.'' @ y @ ''.'' @ z) @ tail)
         = Some (x @ ''.'' @ y @ ''.'' @ z)"
proof -
  have "list_all py_isspace '' ''" using space_facts by simp
  from read_pattern_digits [OF assms quote_facts(1) quote_facts(1) this this, of tail]
  have "re_match version_read_pattern (version_assignment (x @ ''.'' @ y @ ''.'' @ z) @ tail) False []
        = Some (x @ ''.'' @ y @ ''.'' @ z, tail)"
    by (simp add: version_assignment_def)
  from re_search_here [OF this] show ?thesis by simp
qed

lemma write_pattern_not_empty: "re_match version_write_pattern [] False [] = None"
  by (simp add: version_write_pattern_def lit_def)

lemma search_after_sub:
  assumes "digits x" "digits y" "digits z"
    and "re_search version_write_pattern s \<noteq> None"
  shows "re_search version_read_pattern
           (re_sub version_write_pattern (version_assignment (x @ ''.'' @ y @ ''.'' @ z)) s)
         = Some (x @ ''.'' @ y @ ''.'' @ z)"
  using assms(4)
proof (induction s)
  case Nil
  then show ?case by (simp add: write_pattern_not_empty)
next
  case (Cons c cs)
  let ?A = "version_assignment (x @ ''.'' @ y @ ''.'' @ z)"
  show ?case
  proof (cases "re_match version_write_pattern (c # cs) False []")
    case (Some m)
    then obtain tail where "re_sub version_write_pattern ?A (c # cs) = ?A @ tail"
      by (cases "length (snd m) < length (c # cs)") simp_all
    then show ?thesis using read_assignment [OF assms(1-3)] by simp
  next
    case None
    with Cons.prems have n: "re_search version_write_pattern cs \<noteq> None" by simp
    from re_sub_first [OF n, of ?A] obtain pre w tail where
      p: "cs = pre @ w" "re_sub version_write_pattern ?A cs = pre @ ?A @ tail" by blast
    from None p(1) have "re_match version_write_pattern ((c # pre) @ w) False [] = None" by simp
    from no_read_match_before [OF this, of _ tail]
    have "re_match version_read_pattern (c # re_sub version_write_pattern ?A cs) False [] = None"
      using p(2) by simp
    then have "re_search version_read_pattern (c # re_sub version_write_pattern ?A cs)
               = re_search version_read_pattern (re_sub version_write_pattern ?A cs)"
      by simp
    with None Cons.IH [OF n] show ?thesis by simp
  qed
qed


section \<open>Line ends and the replacement text\<close>

lemma isdigit_not_cr: "py_isdigit c \<Longrightarrow> c \<noteq> carriage_return"
  by (auto simp: isdigit_iff carriage_return_def)

lemma universal_newlines_id: "carriage_return \<notin> set s \<Longrightarrow> universal_newlines s = s"
  by (induction s rule: universal_newlines.induct) auto

lemma universal_newlines_no_cr: "carriage_return \<notin> set (universal_newlines s)"
  by (induction s rule: universal_newlines.induct) (auto simp: newline_def carriage_return_def)

lemma re_match_suffix:
  "re_match pat s rec cap = Some m \<Longrightarrow> \<exists>t. s = t @ snd m"
proof (induction pat s rec cap rule: re_match.induct)
  case (1 s rec cap)
  then show ?case by auto
next
  case (2 r s rec cap)
  then show ?case by simp
next
  case (3 r s rec cap)
  then show ?case by simp
next
  case (4 p r rec cap)
  then show ?case by simp
next
  case (5 p r c cs rec cap)
  from "5.prems" have pc: "p c"
    and "re_match r cs rec (if rec then c # cap else cap) = Some m"
    by (auto split: if_splits)
  with "5.IH" obtain t where "cs = t @ snd m" by blast
  then have "c # cs = (c # t) @ snd m" by simp
  then show ?case by (rule exI)
next
  case (6 p r rec cap)
  then show ?case by simp
next
  case (7 p r c cs rec cap)
  show ?case
  proof (cases "p c \<and> re_match (Many p # r) cs rec (if rec then c # cap else cap) \<noteq> None")
    case True
    with "7.prems" have "re_match (Many p # r) cs rec (if rec then c # cap else cap) = Some m"
      by auto
    with "7.IH"(1) True obtain t where "cs = t @ snd m" by blast
    then have "c # cs = (c # t) @ snd m" by simp
    then show ?thesis by (rule exI)
  next
    case False
    with "7.prems" have m: "re_match r (c # cs) rec cap = Some m"
      by (auto split: if_splits option.splits)
    show ?thesis
    proof (cases "p c")
      case True
      with False have "re_match (Many p # r) cs rec (if rec then c # cap else cap) = None" by blast
      with "7.IH"(2) True m show ?thesis by blast
    next
      case False
      with "7.IH"(3) m show ?thesis by blast
    qed
  qed
qed

lemma re_sub_set: "set (re_sub pat repl s) \<subseteq> set s \<union> set repl"
proof (induction pat repl s rule: re_sub.induct)
  case (1 pat repl)
  show ?case by (auto split: option.splits)
next
  case (2 pat repl c cs)
  show ?case
  proof (cases "re_match pat (c # cs) False []")
    case None
    from "2.IH"(1) [OF None] None show ?thesis by auto
  next
    case (Some m)
    from re_match_suffix [OF Some] obtain t where "c # cs = t @ snd m" by blast
    then have "set (c # cs) = set t \<union> set (snd m)" by (metis set_append)
    then have s: "set (snd m) \<subseteq> set (c # cs)" by blast
    show ?thesis
    proof (cases "length (snd m) < length (c # cs)")
      case True
      from "2.IH"(2) [OF Some True] s Some True show ?thesis by auto
    next
      case False
      from "2.IH"(3) [OF Some False] Some False show ?thesis by auto
    qed
  qed
qed

lemma py_re_sub_plain: "backslash \<notin> set repl \<Longrightarrow> py_re_sub pat repl s = Some (re_sub pat repl s)"
  by (simp add: py_re_sub_def)

lemma version_assignment_set:
  assumes "digits x" "digits y" "digits z"
  shows "backslash \<notin> set (version_assignment (x @ ''.'' @ y @ ''.'' @ z))"
    and "carriage_return \<notin> set (version_assignment (x @ ''.'' @ y @ ''.'' @ z))"
proof -
  have "\<forall>c\<in>set x \<union> set y \<union> set z. py_isdigit c"
    using assms by (auto simp: digits_def list_all_iff)
  then have d: "\<forall>c\<in>set x \<union> set y \<union> set z. c \<noteq> backslash \<and> c \<noteq> carriage_return"
    using isdigit_not_special(6) isdigit_not_cr by blast
  show "backslash \<notin> set (version_assignment (x @ ''.'' @ y @ ''.'' @ z))"
    using d by (auto simp: version_assignment_def dquote_def backslash_def)
  show "carriage_return \<notin> set (version_assignment (x @ ''.'' @ y @ ''.'' @ z))"
    using d by (auto simp: version_assignment_def dquote_def carriage_return_def)
qed

lemma read_stored_assignment:
  assumes "digits x" "digits y" "digits z" "carriage_return \<notin> set tail"
  shows "read_current_version (healthy (Some (version_assignment (x @ ''.'' @ y @ ''.'' @ z) @ tail))) p
         = Inr (x @ ''.'' @ y @ ''.'' @ z, [])"
proof -
  have "carriage_return \<notin> set (version_assignment (x @ ''.'' @ y @ ''.'' @ z) @ tail)"
    using version_assignment_set(2) [OF assms(1-3)] assms(4) by simp
  from universal_newlines_id [OF this] read_assignment [OF assms(1-3), of tail]
  show ?thesis by (simp add: read_current_version_def healthy_def)
qed


section \<open>The version that is read\<close>

lemma read_current_version_shape:
  assumes "read_current_version env p = Inr (v, out)"
  shows "\<exists>a b c. v = a @ ''.'' @ b @ ''.'' @ c \<and> digits a \<and> digits b \<and> digits c"
proof (cases "\<exists>content g. exists_error env = None \<and> vfile env = Some content
                \<and> read_error env = None
                \<and> re_search version_read_pattern (universal_newlines content) = Some g")
  case True
  then obtain content g where c: "exists_error env = None" "vfile env = Some content"
    "read_error env = None"
    "re_search version_read_pattern (universal_newlines content) = Some g" by blast
  with assms have r: "v = g" by (simp add: read_current_version_def)
  from re_search_match [OF c(4)] obtain t m where
    "re_match version_read_pattern t False [] = Some m" "fst m = g" by blast
  with read_pattern_group [of t m] r show ?thesis by simp
next
  case False
  with assms have "v = ''0'' @ ''.'' @ ''0'' @ ''.'' @ ''0''"
    by (auto simp: read_current_version_def split: option.splits)
  then show ?thesis using digits_zero(1) by blast
qed

lemma increment_version_digits:
  assumes "digits x" "digits y" "digits z"
  shows "increment_version (x @ ''.'' @ y @ ''.'' @ z) t \<noteq> Inl (InvalidVersionFormat s)"
  unfolding increment_version_def parse_version_digits [OF assms]
  by (auto simp: format_version_def split: option.splits)

lemma read_version_parsed:
  assumes "read_current_version env p = Inr (v, out)"
  shows "\<exists>x y z. v = x @ ''.'' @ y @ ''.'' @ z \<and> digits x \<and> digits y \<and> digits z
     \<and> version_text v
     \<and> parse_version v
         = (if max_str_digits < length x then Inl (IntValueError x)
            else if max_str_digits < length y then Inl (IntValueError y)
            else if max_str_digits < length z then Inl (IntValueError z)
            else Inr (int (digits_val x), int (digits_val y), int (digits_val z)))
     \<and> (\<forall>t s. increment_version v t \<noteq> Inl (InvalidVersionFormat s))"
proof -
  from read_current_version_shape [OF assms] obtain x y z where
    s: "v = x @ ''.'' @ y @ ''.'' @ z" and d: "digits x" "digits y" "digits z" by blast
  have t: "version_text v" unfolding s using d by (rule version_text_digits)
  note q = parse_version_digits [OF d]
  have i: "\<forall>t s. increment_version v t \<noteq> Inl (InvalidVersionFormat s)"
    unfolding s using increment_version_digits [OF d] by blast
  show ?thesis
  proof (intro exI conjI)
    show "v = x @ ''.'' @ y @ ''.'' @ z" by fact
    show "digits x" "digits y" "digits z" by fact+
    show "version_text v" by fact
    show "parse_version v
         = (if max_str_digits < length x then Inl (IntValueError x)
            else if max_str_digits < length y then Inl (IntValueError y)
            else if max_str_digits < length z then Inl (IntValueError z)
            else Inr (int (digits_val x), int (digits_val y), int (digits_val z)))"
      unfolding s by (rule q)
    show "\<forall>t s. increment_version v t \<noteq> Inl (InvalidVersionFormat s)" by fact
  qed
qed

lemma main_int_limit:
  assumes "digits x" "digits y" "digits z" "max_str_digits < length z"
    "length x \<le> max_str_digits" "length y \<le> max_str_digits"
    and "\<not> should_skip_version_update m"
  shows "main (healthy (Some (version_assignment (x @ ''.'' @ y @ ''.'' @ z)))) p m
         = \<lparr>outcome = Uncaught (IntValueError z),
            printed = [Text (''Current version: '' @ x @ ''.'' @ y @ ''.'' @ z),
                       Text (''Commit message: '' @ take 50 m @ ''...''),
                       Text (''Increment type: '' @ parse_commit_message_for_increment m)],
            file_after = Some (version_assignment (x @ ''.'' @ y @ ''.'' @ z))\<rparr>"
proof -
  let ?v = "x @ ''.'' @ y @ ''.'' @ z"
  have r: "read_current_version (healthy (Some (version_assignment ?v))) p = Inr (?v, [])"
    using read_stored_assignment [OF assms(1-3), of "[]"] by simp
  have "parse_version ?v = Inl (IntValueError z)"
    using parse_version_digits [OF assms(1-3)] assms(4-6) by simp
  then have i: "increment_version ?v t = Inl (IntValueError z)" for t
    by (simp add: increment_version_def)
  show ?thesis
    unfolding main_def r using assms(7) i by (simp add: Let_def healthy_def)
qed

text \<open>
  Claim C10, as the specification has it: the version read from the file is three runs
  of digits, so that \<^verbatim>\<open>increment_version\<close> has no ValueError to raise on it. The
  first half holds; the second does not. A file whose assignment has a patch component
  of 4301 digits is read, the pattern puts no bound on a run of digits; on that version
  \<^verbatim>\<open>int\<close> raises ValueError at line 52, which nothing catches, and the run ends there.
\<close>

theorem read_version_over_limit:
  "read_current_version
       (healthy (Some (version_assignment (''1.0.'' @ replicate 4301 (CHR ''1''))))) ''v.py''
     = Inr (''1.0.'' @ replicate 4301 (CHR ''1''), [])
   \<and> version_text (''1.0.'' @ replicate 4301 (CHR ''1''))
   \<and> increment_version (''1.0.'' @ replicate 4301 (CHR ''1'')) ''major''
     = Inl (IntValueError (replicate 4301 (CHR ''1'')))
   \<and> main (healthy (Some (version_assignment (''1.0.'' @ replicate 4301 (CHR ''1'')))))
          ''v.py'' ''Fix [major]''
     = \<lparr>outcome = Uncaught (IntValueError (replicate 4301 (CHR ''1''))),
        printed = [Text (''Current version: 1.0.'' @ replicate 4301 (CHR ''1'')),
                   Text ''Commit message: Fix [major]...'',
                   Text ''Increment type: major''],
        file_after = Some (version_assignment (''1.0.'' @ replicate 4301 (CHR ''1'')))\<rparr>"
proof -
  let ?z = "replicate 4301 (CHR ''1'')"
  have d: "digits ''1''" "digits ''0''" "digits ?z"
    by (simp_all add: digits_def py_isdigit_def list_all_iff)
  have l: "max_str_digits < length ?z" "length ''1'' \<le> max_str_digits"
    "length ''0'' \<le> max_str_digits"
    by (simp_all add: max_str_digits_def)
  have s: "\<not> should_skip_version_update ''Fix [major]''" by code_simp
  have t: "parse_commit_message_for_increment ''Fix [major]'' = ''major''" by code_simp
  have k: "take 50 ''Fix [major]'' = ''Fix [major]''" by simp
  have 1: "read_current_version (healthy (Some (version_assignment (''1'' @ ''.'' @ ''0'' @ ''.'' @ ?z)))) ''v.py''
           = Inr (''1'' @ ''.'' @ ''0'' @ ''.'' @ ?z, [])"
    using read_stored_assignment [OF d, of "[]" "''v.py''"] by simp
  have 2: "version_text (''1'' @ ''.'' @ ''0'' @ ''.'' @ ?z)"
    using d by (rule version_text_digits)
  have "parse_version (''1'' @ ''.'' @ ''0'' @ ''.'' @ ?z) = Inl (IntValueError ?z)"
    using parse_version_digits [OF d] l by simp
  then have 3: "increment_version (''1'' @ ''.'' @ ''0'' @ ''.'' @ ?z) ''major''
                = Inl (IntValueError ?z)"
    by (simp add: increment_version_def)
  note 4 = main_int_limit [OF d l s, of "''v.py''", unfolded t k]
  have e: "''1'' @ ''.'' @ ''0'' @ ''.'' @ ?z = ''1.0.'' @ ?z"
    "''Current version: '' @ ''1.0.'' @ ?z = ''Current version: 1.0.'' @ ?z"
    "''Commit message: '' @ ''Fix [major]'' @ ''...'' = ''Commit message: Fix [major]...''"
    "''Increment type: '' @ ''major'' = ''Increment type: major''"
    by simp_all
  show ?thesis using 1 2 3 4 unfolding e by (intro conjI)
qed

text \<open>
  Claim C10, amended. Whatever the environment and the content of the file, a version
  that \<^verbatim>\<open>read_current_version\<close> returns is three non-empty runs of digits with a dot
  between them: the default \<^verbatim>\<open>0.0.0\<close> or the group of the pattern. It splits into
  three parts, so that the ValueError of line 50 for a version that has not three parts
  is never raised on it, whatever the increment type. Its parts are converted to the
  numbers they write when each has at most 4300 digits; otherwise \<^verbatim>\<open>int\<close> raises
  ValueError at line 52 for the first part that has more.
\<close>

theorem read_version_well_formed:
  assumes "read_current_version env p = Inr (v, out)"
  shows "\<exists>x y z. v = x @ ''.'' @ y @ ''.'' @ z \<and> digits x \<and> digits y \<and> digits z
     \<and> version_text v
     \<and> parse_version v
         = (if max_str_digits < length x then Inl (IntValueError x)
            else if max_str_digits < length y then Inl (IntValueError y)
            else if max_str_digits < length z then Inl (IntValueError z)
            else Inr (int (digits_val x), int (digits_val y), int (digits_val z)))
     \<and> (\<forall>t s. increment_version v t \<noteq> Inl (InvalidVersionFormat s))"
  using assms by (rule read_version_parsed)

theorem read_version_well_formed_witness:
  \<open>read_current_version (healthy (Some ''name = 1; __version__  =  "01.20.3" # x'')) ''v.py''
     = Inr (''01.20.3'', [])
   \<and> version_text ''01.20.3''
   \<and> (\<forall>t s. increment_version ''01.20.3'' t \<noteq> Inl (InvalidVersionFormat s))\<close>
proof -
  have r: \<open>read_current_version (healthy (Some ''name = 1; __version__  =  "01.20.3" # x'')) ''v.py''
     = Inr (''01.20.3'', [])\<close>
    by code_simp
  from read_version_well_formed [OF r]
  have "version_text ''01.20.3''"
    and "\<forall>t s. increment_version ''01.20.3'' t \<noteq> Inl (InvalidVersionFormat s)"
    by blast+
  with r show ?thesis by blast
qed


section \<open>Runs of the script\<close>

lemma parse_type_valid:
  "parse_commit_message_for_increment m = ''major''
   \<or> parse_commit_message_for_increment m = ''minor''
   \<or> parse_commit_message_for_increment m = ''patch''"
  by (simp add: parse_commit_message_for_increment_def Let_def)

lemma format_version_cases:
  "format_version (int x) (int y) (int z)
     = (if \<not> x < 10 ^ max_str_digits then Inl (StrValueError (int x))
        else if \<not> y < 10 ^ max_str_digits then Inl (StrValueError (int y))
        else if \<not> z < 10 ^ max_str_digits then Inl (StrValueError (int z))
        else Inr (version_string x y z))"
  using py_str_nat [of x] py_str_nat [of y] py_str_nat [of z]
    py_str_too_big [of x] py_str_too_big [of y] py_str_too_big [of z]
  by (auto simp: format_version_def version_string_def not_less)

lemma format_version_Inr:
  assumes "format_version (int a) (int b) (int c) = Inr s"
  shows "s = version_string a b c \<and> parse_version s = Inr (int a, int b, int c)"
proof -
  from assms have "a < 10 ^ max_str_digits \<and> b < 10 ^ max_str_digits
      \<and> c < 10 ^ max_str_digits \<and> s = version_string a b c"
    unfolding format_version_cases by (auto split: if_splits)
  then show ?thesis using parse_version_string [of a b c] by simp
qed

lemma version_string_plain: "backslash \<notin> set (version_assignment (version_string a b c))"
  unfolding version_string_def
  using str_nat_digits str_nat_digits str_nat_digits by (rule version_assignment_set(1))

lemma increment_version_new:
  assumes "digits x" "digits y" "digits z"
    and "increment_version (x @ ''.'' @ y @ ''.'' @ z) t = Inr new"
  shows "new \<noteq> x @ ''.'' @ y @ ''.'' @ z \<and> backslash \<notin> set (version_assignment new)"
proof -
  let ?v = "x @ ''.'' @ y @ ''.'' @ z"
  let ?a = "digits_val x" and ?b = "digits_val y" and ?c = "digits_val z"
  have p: "parse_version ?v = Inr (int ?a, int ?b, int ?c)"
  proof (rule ccontr)
    assume "parse_version ?v \<noteq> Inr (int ?a, int ?b, int ?c)"
    then obtain e where "parse_version ?v = Inl e"
      unfolding parse_version_digits [OF assms(1-3)] by (auto split: if_splits)
    with assms(4) show False by (simp add: increment_version_def)
  qed
  have s: "int n + 1 = int (n + 1)" "(0::int) = int 0" for n by simp_all
  from assms(4) have "(t = ''major'' \<and> format_version (int (?a + 1)) (int 0) (int 0) = Inr new)
      \<or> (t = ''minor'' \<and> format_version (int ?a) (int (?b + 1)) (int 0) = Inr new)
      \<or> (t = ''patch'' \<and> format_version (int ?a) (int ?b) (int (?c + 1)) = Inr new)"
    unfolding increment_version_parsed [OF p] s [symmetric] by (auto split: if_splits)
  then consider
    (major) "format_version (int (?a + 1)) (int 0) (int 0) = Inr new"
    | (minor) "format_version (int ?a) (int (?b + 1)) (int 0) = Inr new"
    | (patch) "format_version (int ?a) (int ?b) (int (?c + 1)) = Inr new"
    by blast
  then show ?thesis
  proof cases
    case major
    from format_version_Inr [OF this] p version_string_plain [of "?a + 1" 0 0]
    show ?thesis by auto
  next
    case minor
    from format_version_Inr [OF this] p version_string_plain [of ?a "?b + 1" 0]
    show ?thesis by auto
  next
    case patch
    from format_version_Inr [OF this] p version_string_plain [of ?a ?b "?c + 1"]
    show ?thesis by auto
  qed
qed

lemma increment_version_error:
  assumes "digits x" "digits y" "digits z"
    and "t = ''major'' \<or> t = ''minor'' \<or> t = ''patch''"
    and "increment_version (x @ ''.'' @ y @ ''.'' @ z) t = Inl e"
  shows "(\<exists>s. e = IntValueError s \<and> max_str_digits < length s) \<or> (\<exists>n. e = StrValueError n)"
  using assms(4,5)
  unfolding increment_version_def parse_version_digits [OF assms(1-3)]
  by (auto simp: format_version_def split: option.splits if_splits)

lemma update_version_file_ok:
  assumes "backslash \<notin> set (version_assignment v)" "mkdir_error env = None"
  shows "\<exists>out cs. update_version_file env v = Inr (\<not> write_fails env, out, cs)"
  using assms
  by (auto simp: update_version_file_def new_file_content_def write_fails_def Let_def
      py_re_sub_plain split: option.splits)

lemma update_version_file_mkdir:
  assumes "mkdir_error env = Some x"
  shows "update_version_file env v = Inl (OSError x)"
  using assms by (simp add: update_version_file_def)

lemma main_outcome:
  "outcome (main env p m) =
     (case read_current_version env p of
        Inl e \<Rightarrow> Uncaught e
      | Inr (cur, out0) \<Rightarrow>
          if should_skip_version_update m then Exit 0
          else (case increment_version cur (parse_commit_message_for_increment m) of
                  Inl e \<Rightarrow> Uncaught e
                | Inr new \<Rightarrow>
                    (case mkdir_error env of
                       Some x \<Rightarrow> Uncaught (OSError x)
                     | None \<Rightarrow> if write_fails env then Exit 1 else Exit 0)))"
proof (cases "read_current_version env p")
  case (Inl e)
  then show ?thesis by (simp add: main_def)
next
  case (Inr r)
  obtain cur out0 where r: "read_current_version env p = Inr (cur, out0)"
    using Inr by (cases r) simp
  show ?thesis
  proof (cases "should_skip_version_update m")
    case True
    with r show ?thesis by (simp add: main_def)
  next
    case False
    show ?thesis
    proof (cases "increment_version cur (parse_commit_message_for_increment m)")
      case (Inl e)
      with r False show ?thesis by (simp add: main_def Let_def)
    next
      case (Inr new)
      from read_current_version_shape [OF r] obtain x y z where
        s: "cur = x @ ''.'' @ y @ ''.'' @ z" and d: "digits x" "digits y" "digits z" by blast
      from increment_version_new [OF d Inr [unfolded s]] s
      have n: "new \<noteq> cur" and b: "backslash \<notin> set (version_assignment new)" by simp_all
      show ?thesis
      proof (cases "mkdir_error env")
        case None
        from update_version_file_ok [OF b None] obtain out cs where
          "update_version_file env new = Inr (\<not> write_fails env, out, cs)" by blast
        with False r Inr n None show ?thesis by (simp add: main_def Let_def)
      next
        case (Some e)
        with False r Inr update_version_file_mkdir [OF Some, of new] show ?thesis
          by (simp add: main_def Let_def)
      qed
    qed
  qed
qed

lemma main_skip_file:
  "should_skip_version_update m \<Longrightarrow> file_after (main env p m) = vfile env"
  by (simp add: main_def split: sum.splits prod.splits)

lemma exit_code_main: "exit_code (outcome (main env p m)) \<le> 1"
  unfolding main_outcome by (simp split: sum.splits prod.splits option.splits)

lemma increment_version_invalid_type:
  assumes "t \<noteq> ''major''" "t \<noteq> ''minor''" "t \<noteq> ''patch''"
  shows "\<exists>e. increment_version v t = Inl e"
  using assms by (auto simp: increment_version_def split: sum.splits)

lemma read_current_version_raises:
  "read_current_version env p = Inl e \<longleftrightarrow> (\<exists>x. exists_error env = Some x \<and> e = OSError x)"
  by (auto simp: read_current_version_def split: option.splits)

lemma main_uncaught:
  assumes "outcome (main env p m) = Uncaught e"
  shows "(\<exists>x. e = OSError x \<and> (exists_error env = Some x \<or> mkdir_error env = Some x))
         \<or> (\<exists>s. e = IntValueError s \<and> max_str_digits < length s)
         \<or> (\<exists>n. e = StrValueError n)"
proof (cases "read_current_version env p")
  case (Inl e')
  with assms have "e' = e" unfolding main_outcome by simp
  with Inl read_current_version_raises [of env p e] show ?thesis by blast
next
  case (Inr r)
  obtain cur out0 where r: "read_current_version env p = Inr (cur, out0)"
    using Inr by (cases r) simp
  from read_current_version_shape [OF r] obtain x y z where
    s: "cur = x @ ''.'' @ y @ ''.'' @ z" and d: "digits x" "digits y" "digits z" by blast
  show ?thesis
  proof (cases "increment_version cur (parse_commit_message_for_increment m)")
    case (Inl e')
    with assms r have "e' = e" unfolding main_outcome by (simp split: if_splits)
    with Inl increment_version_error [OF d parse_type_valid [of m], of e] s
    show ?thesis by blast
  next
    case (Inr new)
    with assms r have "mkdir_error env = Some (case e of OSError x \<Rightarrow> x | _ \<Rightarrow> [])
        \<and> (\<exists>x. e = OSError x)"
      unfolding main_outcome by (auto split: if_splits option.splits)
    then show ?thesis by auto
  qed
qed

lemma first_increment: "increment_version ''0.0.0'' ''patch'' = Inr ''0.0.1''"
  by code_simp

lemma read_first_version:
  "read_current_version (healthy (Some (version_assignment ''0.0.1'' @ [newline]))) p
   = Inr (''0.0.1'', [])"
proof -
  have "re_search version_read_pattern
          (universal_newlines (version_assignment ''0.0.1'' @ [newline])) = Some ''0.0.1''"
    by code_simp
  then show ?thesis by (simp add: read_current_version_def healthy_def)
qed

lemma main_missing_file:
  assumes "exists_error env = None" "vfile env = None" "mkdir_error env = None"
    "open_error env = None" "write_error env = None"
    and "\<not> occurs_ci ''[major]'' m" "\<not> occurs_ci ''[minor]'' m"
    and "\<not> occurs_ci ''auto-increment version'' m" "\<not> occurs_ci ''chore: auto-increment'' m"
  shows "main env p m =
     \<lparr>outcome = Exit 0,
      printed = [Text ''Current version: 0.0.0'',
                 Text (''Commit message: '' @ take 50 m @ ''...''),
                 Text ''Increment type: patch'', Text ''New version: 0.0.1'',
                 Text (''Successfully updated '' @ p @ '' to version 0.0.1'')],
      file_after = Some (version_assignment ''0.0.1'' @ [newline])\<rparr>"
proof -
  have r: "read_current_version env p = Inr (''0.0.0'', [])"
    using assms(1,2) by (simp add: read_current_version_def)
  have s: "\<not> should_skip_version_update m"
    using assms(8,9) by (simp add: should_skip_version_update_def occurs_ci_iff Let_def)
  have t: "parse_commit_message_for_increment m = ''patch''"
    using assms(6,7) by (simp add: parse_commit_message_for_increment_def occurs_ci_iff Let_def)
  have u: "update_version_file env ''0.0.1''
           = Inr (True, [], [None, Some []] @ written env (version_assignment ''0.0.1'' @ [newline])
                  @ [Some (version_assignment ''0.0.1'' @ [newline])])"
    using assms(1-5) by (simp add: update_version_file_def new_file_content_def)
  show ?thesis
    unfolding main_def r using s t u first_increment by (simp add: Let_def)
qed

lemma read_defaults:
  assumes "exists_error env = None"
  shows "(vfile env = None \<longrightarrow> read_current_version env p = Inr (''0.0.0'', []))
   \<and> (vfile env = Some content \<and> read_error env = None
       \<and> re_search version_read_pattern (universal_newlines content) = None \<longrightarrow>
        read_current_version env p
          = Inr (''0.0.0'', [Text (''Warning: Could not parse version from '' @ p
                                   @ '', defaulting to 0.0.0'')]))
   \<and> (vfile env = Some content \<and> read_error env = Some e \<longrightarrow>
        read_current_version env p
          = Inr (''0.0.0'', [Text (''Error reading version file: '' @ e
                                   @ '', defaulting to 0.0.0'')]))
   \<and> (vfile env = None \<and> mkdir_error env = None \<and> open_error env = None
       \<and> write_error env = None
       \<and> \<not> occurs_ci ''[major]'' m \<and> \<not> occurs_ci ''[minor]'' m \<and> \<not> occurs_ci ''[patch]'' m
       \<and> \<not> occurs_ci ''auto-increment version'' m \<and> \<not> occurs_ci ''chore: auto-increment'' m \<longrightarrow>
        outcome (main env p m) = Exit 0
        \<and> file_after (main env p m) = Some (version_assignment ''0.0.1'' @ [newline])
        \<and> read_current_version (healthy (file_after (main env p m))) p = Inr (''0.0.1'', []))"
proof (intro conjI impI)
  assume "vfile env = None"
  with assms show "read_current_version env p = Inr (''0.0.0'', [])"
    by (simp add: read_current_version_def)
next
  assume "vfile env = Some content \<and> read_error env = None
       \<and> re_search version_read_pattern (universal_newlines content) = None"
  with assms show "read_current_version env p
          = Inr (''0.0.0'', [Text (''Warning: Could not parse version from '' @ p
                                   @ '', defaulting to 0.0.0'')])"
    by (simp add: read_current_version_def)
next
  assume "vfile env = Some content \<and> read_error env = Some e"
  with assms show "read_current_version env p
          = Inr (''0.0.0'', [Text (''Error reading version file: '' @ e
                                   @ '', defaulting to 0.0.0'')])"
    by (simp add: read_current_version_def)
next
  assume a: "vfile env = None \<and> mkdir_error env = None \<and> open_error env = None
       \<and> write_error env = None
       \<and> \<not> occurs_ci ''[major]'' m \<and> \<not> occurs_ci ''[minor]'' m \<and> \<not> occurs_ci ''[patch]'' m
       \<and> \<not> occurs_ci ''auto-increment version'' m \<and> \<not> occurs_ci ''chore: auto-increment'' m"
  with assms have m: "main env p m =
     \<lparr>outcome = Exit 0,
      printed = [Text ''Current version: 0.0.0'',
                 Text (''Commit message: '' @ take 50 m @ ''...''),
                 Text ''Increment type: patch'', Text ''New version: 0.0.1'',
                 Text (''Successfully updated '' @ p @ '' to version 0.0.1'')],
      file_after = Some (version_assignment ''0.0.1'' @ [newline])\<rparr>"
    by (intro main_missing_file) simp_all
  show "outcome (main env p m) = Exit 0" unfolding m by simp
  show "file_after (main env p m) = Some (version_assignment ''0.0.1'' @ [newline])"
    unfolding m by simp
  show "read_current_version (healthy (file_after (main env p m))) p = Inr (''0.0.1'', [])"
    unfolding m by (simp add: read_first_version)
qed


section \<open>Reading a missing or unreadable version\<close>

text \<open>
  Claim C8 says that \<^verbatim>\<open>read_current_version\<close> returns \<^verbatim>\<open>0.0.0\<close> without error when
  the file does not exist, and never raises. The function asks \<^verbatim>\<open>version_file.exists()\<close>
  at line 19, before the \<^verbatim>\<open>try\<close> of lines 22 to 34 that turns every failure of
  opening and reading the file into the default. \<^verbatim>\<open>exists()\<close> answers False for a
  missing file, but raises OSError when the status of the path cannot be read for another
  reason: for a name of 300 letters, which no file can have, it raises OSError 36. The
  exception leaves \<^verbatim>\<open>read_current_version\<close> and \<^verbatim>\<open>main\<close>, which has printed
  nothing by then. Where \<^verbatim>\<open>exists()\<close> returns, the claim holds (\<open>read_defaults\<close>).
\<close>

theorem read_missing_raises:
  "read_current_version
       ((healthy None)\<lparr>exists_error :=
          Some (''[Errno 36] File name too long: '' @ [squote] @ replicate 300 (CHR ''a'') @ [squote])\<rparr>)
       (replicate 300 (CHR ''a''))
     = Inl (OSError (''[Errno 36] File name too long: '' @ [squote] @ replicate 300 (CHR ''a'') @ [squote]))
   \<and> main ((healthy None)\<lparr>exists_error :=
          Some (''[Errno 36] File name too long: '' @ [squote] @ replicate 300 (CHR ''a'') @ [squote])\<rparr>)
          (replicate 300 (CHR ''a'')) ''Fix the parser''
     = \<lparr>outcome = Uncaught
          (OSError (''[Errno 36] File name too long: '' @ [squote] @ replicate 300 (CHR ''a'') @ [squote])),
        printed = [], file_after = None\<rparr>"
  by (simp add: main_def read_current_version_def healthy_def)


section \<open>Exit codes\<close>

text \<open>
  Claim C2 says that three exit codes tell a changed version, an unchanged version and a
  failure apart. The script has two: the run that the loop guard skips and the run that
  changes the version both exit with 0.
\<close>

theorem exit_codes_not_three_way:
  \<open>outcome (main (healthy (Some ''__version__ = "1.0.0"'')) ''v.py''
       ''chore: auto-increment version [skip ci]'') = Exit 0
   \<and> file_after (main (healthy (Some ''__version__ = "1.0.0"'')) ''v.py''
       ''chore: auto-increment version [skip ci]'') = Some ''__version__ = "1.0.0"''
   \<and> outcome (main (healthy (Some ''__version__ = "1.0.0"'')) ''v.py'' ''Fix bug [minor]'') = Exit 0
   \<and> file_after (main (healthy (Some ''__version__ = "1.0.0"'')) ''v.py'' ''Fix bug [minor]'')
       = Some ''__version__ = "1.1.0"''
   \<and> exit_code (outcome (main (healthy (Some ''__version__ = "1.0.0"'')) ''v.py''
       ''chore: auto-increment version [skip ci]''))
     = exit_code (outcome (main (healthy (Some ''__version__ = "1.0.0"'')) ''v.py'' ''Fix bug [minor]''))\<close>
  by code_simp

text \<open>
  Claim C2, amended. The exit code makes a two-way distinction. A run in which
  \<^verbatim>\<open>read_current_version\<close> returns exits with 0 if the loop guard skips it, and then
  leaves the file as it was. A run that is not skipped and in which the new version is
  made exits with 0 if the new version is written and with 1 if testing for the
  existing file, reading it, opening it for writing or writing it fails. The runs that
  are left end with an exception that nothing catches, for which the interpreter exits
  with 1: the exception of \<^verbatim>\<open>exists()\<close> at line 19, the ValueError of lines 52 and 66
  for a component of more than 4300 digits, and the exception of \<^verbatim>\<open>mkdir\<close> at line
  139. No run exits with another code than 0 or 1.
\<close>

theorem main_exit_codes:
  "outcome (main env p m) =
     (case read_current_version env p of
        Inl e \<Rightarrow> Uncaught e
      | Inr (cur, out0) \<Rightarrow>
          if should_skip_version_update m then Exit 0
          else (case increment_version cur (parse_commit_message_for_increment m) of
                  Inl e \<Rightarrow> Uncaught e
                | Inr new \<Rightarrow>
                    (case mkdir_error env of
                       Some x \<Rightarrow> Uncaught (OSError x)
                     | None \<Rightarrow> if write_fails env then Exit 1 else Exit 0)))
   \<and> (should_skip_version_update m \<longrightarrow> file_after (main env p m) = vfile env)
   \<and> exit_code (outcome (main env p m)) \<le> 1"
  using main_outcome [of env p m] main_skip_file [of m env p] exit_code_main [of env p m]
  by blast

theorem main_exit_codes_witness:
  \<open>outcome (main (healthy (Some ''__version__ = "1.0.0"'')) ''v.py'' ''Fix bug [minor]'') = Exit 0
   \<and> outcome (main (healthy (Some ''__version__ = "1.0.0"'')) ''v.py''
        ''chore: auto-increment version'') = Exit 0
   \<and> file_after (main (healthy (Some ''__version__ = "1.0.0"'')) ''v.py''
        ''chore: auto-increment version'') = Some ''__version__ = "1.0.0"''
   \<and> outcome (main ((healthy (Some ''__version__ = "1.0.0"''))\<lparr>open_error := Some ''Permission denied''\<rparr>)
        ''v.py'' ''Fix bug [minor]'') = Exit 1\<close>
proof -
  let ?E = \<open>healthy (Some ''__version__ = "1.0.0"'')\<close>
  let ?F = \<open>(healthy (Some ''__version__ = "1.0.0"''))\<lparr>open_error := Some ''Permission denied''\<rparr>\<close>
  have h: "mkdir_error ?E = None" "mkdir_error ?F = None" by (simp_all add: healthy_def)
  have f: \<open>vfile ?E = Some ''__version__ = "1.0.0"''\<close> by (simp add: healthy_def)
  have r: "read_current_version ?E ''v.py'' = Inr (''1.0.0'', [])"
    "read_current_version ?F ''v.py'' = Inr (''1.0.0'', [])" by code_simp+
  have s: "\<not> should_skip_version_update ''Fix bug [minor]''"
    "should_skip_version_update ''chore: auto-increment version''" by code_simp+
  have i: "increment_version ''1.0.0'' (parse_commit_message_for_increment ''Fix bug [minor]'')
           = Inr ''1.1.0''" by code_simp
  have w: "\<not> write_fails ?E" "write_fails ?F"
    by (simp_all add: healthy_def write_fails_def)
  have "outcome (main ?E ''v.py'' ''Fix bug [minor]'') = Exit 0"
    using main_exit_codes [of ?E "''v.py''" "''Fix bug [minor]''"] r s i w h by simp
  moreover have "outcome (main ?E ''v.py'' ''chore: auto-increment version'') = Exit 0"
    \<open>file_after (main ?E ''v.py'' ''chore: auto-increment version'') = Some ''__version__ = "1.0.0"''\<close>
    using main_exit_codes [of ?E "''v.py''" "''chore: auto-increment version''"] r s f by simp_all
  moreover have "outcome (main ?F ''v.py'' ''Fix bug [minor]'') = Exit 1"
    using main_exit_codes [of ?F "''v.py''" "''Fix bug [minor]''"] r s i w h by simp
  ultimately show ?thesis by blast
qed


section \<open>The write in place\<close>

text \<open>
  Claim C9 says that the file is replaced atomically, so that an interrupted run leaves
  the old or the new content. The script opens the file for writing, which empties it,
  and then writes: between the two the file is empty, a write that fails at once leaves
  it empty, and a write that fails after a part of the content has reached the file (as
  under a limit on the size of files) leaves that part, here the first ten characters,
  the assignment cut in its name.
\<close>

theorem write_not_atomic:
  \<open>update_version_file (healthy (Some ''x = 1; __version__ = "1.0.0"'')) ''1.0.1''
     = Inr (True, [], [Some ''x = 1; __version__ = "1.0.0"'', Some [],
                       Some ''x = 1; __version__ = "1.0.1"''])
   \<and> Some [] \<noteq> Some ''x = 1; __version__ = "1.0.0"''
   \<and> Some [] \<noteq> Some ''x = 1; __version__ = "1.0.1"''
   \<and> update_version_file ((healthy (Some ''x = 1; __version__ = "1.0.0"''))
        \<lparr>write_error := Some ''No space left on device''\<rparr>) ''1.0.1''
     = Inr (False, [ErrorUpdating (OSError ''No space left on device'')],
            [Some ''x = 1; __version__ = "1.0.0"'', Some []])
   \<and> update_version_file ((healthy (Some ''x = 1; __version__ = "1.0.0"''))
        \<lparr>write_cuts := [10], write_error := Some ''[Errno 27] File too large''\<rparr>) ''1.0.1''
     = Inr (False, [ErrorUpdating (OSError ''[Errno 27] File too large'')],
            [Some ''x = 1; __version__ = "1.0.0"'', Some [], Some ''x = 1; __v''])\<close>
  by code_simp

text \<open>
  Claim C9, amended. \<^verbatim>\<open>update_version_file\<close> writes in place. A call that returns
  true has taken the file through its old content, the empty content, the parts of the
  new content that the writes before the last have left, and the whole new content, in
  this order. A call that returns false has left the old content when it failed before
  the file was opened for writing, and otherwise the empty content or the part of the new
  content written when the write failed. At every moment the file holds its old content
  or a part of the new content from its start, the empty and the whole content among
  them; this is what an interrupted call leaves.
\<close>

theorem update_version_file_in_place:
  assumes "update_version_file env v = Inr (ok, out, cs)"
  shows "(ok \<longrightarrow> (\<exists>n. new_file_content env v = Inr n
                    \<and> cs = [vfile env, Some []] @ written env n @ [Some n]))
       \<and> (\<not> ok \<longrightarrow> cs = [vfile env]
                  \<or> (\<exists>n. new_file_content env v = Inr n
                          \<and> cs = [vfile env, Some []] @ written env n))
       \<and> (\<forall>c\<in>set cs. c = vfile env
                      \<or> (\<exists>n k. new_file_content env v = Inr n \<and> c = Some (take k n)))"
proof -
  define Q where "Q c \<longleftrightarrow> (c = vfile env
      \<or> (\<exists>n k. new_file_content env v = Inr n \<and> c = Some (take k n)))" for c
  have q0: "Q (vfile env)" by (simp add: Q_def)
  have qn: "Q (Some []) \<and> Q (Some n) \<and> (\<forall>c\<in>set (written env n). Q c)"
    if "new_file_content env v = Inr n" for n
  proof -
    have "Q (Some [])" unfolding Q_def
      using that by (intro disjI2 exI [of _ n] exI [of _ 0]) simp
    moreover have "Q (Some n)" unfolding Q_def
      using that by (intro disjI2 exI [of _ n] exI [of _ "length n"]) simp
    moreover have "\<forall>c\<in>set (written env n). Q c"
      unfolding Q_def written_def using that by auto
    ultimately show ?thesis by blast
  qed
  from assms consider
    (none) "\<not> ok" "cs = [vfile env]"
    | (part) n where "\<not> ok" "new_file_content env v = Inr n"
        "cs = [vfile env, Some []] @ written env n"
    | (full) n where "ok" "new_file_content env v = Inr n"
        "cs = [vfile env, Some []] @ written env n @ [Some n]"
    by (auto simp: update_version_file_def split: option.splits sum.splits)
  then have "(ok \<longrightarrow> (\<exists>n. new_file_content env v = Inr n
                    \<and> cs = [vfile env, Some []] @ written env n @ [Some n]))
       \<and> (\<not> ok \<longrightarrow> cs = [vfile env]
                  \<or> (\<exists>n. new_file_content env v = Inr n
                          \<and> cs = [vfile env, Some []] @ written env n))
       \<and> (\<forall>c\<in>set cs. Q c)"
  proof cases
    case none
    with q0 show ?thesis by simp
  next
    case (part n)
    with q0 qn [OF part(2)] show ?thesis by auto
  next
    case (full n)
    with q0 qn [OF full(2)] show ?thesis by auto
  qed
  then show ?thesis unfolding Q_def .
qed

theorem update_version_file_in_place_witness:
  \<open>update_version_file ((healthy (Some ''x = 1; __version__ = "1.0.0"''))
        \<lparr>write_cuts := [10], write_error := Some ''[Errno 27] File too large''\<rparr>) ''1.0.1''
     = Inr (False, [ErrorUpdating (OSError ''[Errno 27] File too large'')],
            [Some ''x = 1; __version__ = "1.0.0"'', Some [], Some ''x = 1; __v''])
   \<and> (\<exists>k. ''x = 1; __v'' = take k ''x = 1; __version__ = "1.0.1"'')
   \<and> update_version_file ((healthy (Some ''x = 1; __version__ = "1.0.0"''))
        \<lparr>write_cuts := [10]\<rparr>) ''1.0.1''
     = Inr (True, [],
            [Some ''x = 1; __version__ = "1.0.0"'', Some [], Some ''x = 1; __v'',
             Some ''x = 1; __version__ = "1.0.1"''])\<close>
proof -
  let ?E = \<open>(healthy (Some ''x = 1; __version__ = "1.0.0"''))
        \<lparr>write_cuts := [10], write_error := Some ''[Errno 27] File too large''\<rparr>\<close>
  let ?F = \<open>(healthy (Some ''x = 1; __version__ = "1.0.0"''))\<lparr>write_cuts := [10]\<rparr>\<close>
  have f: \<open>update_version_file ?E ''1.0.1''
     = Inr (False, [ErrorUpdating (OSError ''[Errno 27] File too large'')],
            [Some ''x = 1; __version__ = "1.0.0"'', Some [], Some ''x = 1; __v''])\<close>
    by code_simp
  have u: \<open>update_version_file ?F ''1.0.1''
     = Inr (True, [],
            [Some ''x = 1; __version__ = "1.0.0"'', Some [], Some ''x = 1; __v'',
             Some ''x = 1; __version__ = "1.0.1"''])\<close>
    by code_simp
  have n: \<open>new_file_content ?E ''1.0.1'' = Inr ''x = 1; __version__ = "1.0.1"''\<close>
    by code_simp
  have v: \<open>vfile ?E = Some ''x = 1; __version__ = "1.0.0"''\<close> by (simp add: healthy_def)
  from update_version_file_in_place [OF f]
  have \<open>\<forall>c\<in>set [Some ''x = 1; __version__ = "1.0.0"'', Some [], Some ''x = 1; __v''].
          c = vfile ?E \<or> (\<exists>n k. new_file_content ?E ''1.0.1'' = Inr n \<and> c = Some (take k n))\<close>
    by blast
  then have \<open>Some ''x = 1; __v'' = vfile ?E
      \<or> (\<exists>n k. new_file_content ?E ''1.0.1'' = Inr n \<and> Some ''x = 1; __v'' = Some (take k n))\<close>
    by simp
  then have \<open>\<exists>k. ''x = 1; __v'' = take k ''x = 1; __version__ = "1.0.1"''\<close>
    unfolding n v by simp
  with f u show ?thesis by blast
qed


section \<open>What a write keeps and what it drops\<close>

text \<open>
  Where the write pattern matches nowhere, the substitution returns its input, and the
  file is left with the assignment line alone, whatever it held. Where it matches, the
  text before the first match is kept, no match of the read pattern starts in it once
  the assignment is in place, and the version written is the one read back. The line
  ends of the file are read as LF and written as LF.
\<close>

lemma update_without_assignment:
  assumes "re_search version_write_pattern (universal_newlines content) = None"
    "backslash \<notin> set (version_assignment v)"
  shows "update_version_file (healthy (Some content)) v
         = Inr (True, [], [Some content, Some [], Some (version_assignment v @ [newline])])"
  using assms
  by (simp add: update_version_file_def new_file_content_def healthy_def re_sub_no_match
      py_re_sub_plain written_def)

lemma write_then_read:
  assumes "digits x" "digits y" "digits z"
  shows "\<exists>n. update_version_file (healthy f) (x @ ''.'' @ y @ ''.'' @ z)
               = Inr (True, [], [f, Some [], Some n])
           \<and> read_current_version (healthy (Some n)) p = Inr (x @ ''.'' @ y @ ''.'' @ z, [])"
proof -
  let ?v = "x @ ''.'' @ y @ ''.'' @ z"
  let ?A = "version_assignment ?v"
  define n where "n =
    (case f of None \<Rightarrow> ?A @ [newline]
     | Some stored \<Rightarrow>
         if re_sub version_write_pattern ?A (universal_newlines stored) = universal_newlines stored
         then ?A @ [newline]
         else re_sub version_write_pattern ?A (universal_newlines stored))"
  note b = version_assignment_set [OF assms]
  have u: "update_version_file (healthy f) ?v = Inr (True, [], [f, Some [], Some n])"
    using b(1)
    by (simp add: update_version_file_def new_file_content_def healthy_def n_def Let_def
        py_re_sub_plain written_def split: option.splits)
  have s: "re_search version_read_pattern n = Some ?v \<and> carriage_return \<notin> set n"
  proof (cases "\<exists>stored. f = Some stored
      \<and> re_sub version_write_pattern ?A (universal_newlines stored) \<noteq> universal_newlines stored")
    case True
    then obtain stored where c: "f = Some stored"
      "re_sub version_write_pattern ?A (universal_newlines stored) \<noteq> universal_newlines stored"
      by blast
    then have "re_search version_write_pattern (universal_newlines stored) \<noteq> None"
      using re_sub_no_match by blast
    from search_after_sub [OF assms this] c have 1: "re_search version_read_pattern n = Some ?v"
      by (simp add: n_def)
    have "set (re_sub version_write_pattern ?A (universal_newlines stored))
            \<subseteq> set (universal_newlines stored) \<union> set ?A"
      by (rule re_sub_set)
    with universal_newlines_no_cr [of stored] b(2)
    have "carriage_return \<notin> set (re_sub version_write_pattern ?A (universal_newlines stored))"
      by blast
    with c have "carriage_return \<notin> set n" by (simp add: n_def)
    with 1 show ?thesis by blast
  next
    case False
    then have e: "n = ?A @ [newline]" by (auto simp: n_def split: option.splits)
    have "carriage_return \<notin> set n"
      unfolding e using b(2) by (simp add: newline_def carriage_return_def)
    then show ?thesis using read_assignment [OF assms, of "[newline]"] e by simp
  qed
  then have "read_current_version (healthy (Some n)) p = Inr (?v, [])"
    by (simp add: read_current_version_def healthy_def universal_newlines_id)
  with u show ?thesis by blast
qed

lemma write_pattern_consumes:
  assumes "re_match version_write_pattern s False [] = Some m"
  shows "length (snd m) < length s"
proof -
  from assms have "re_match (lit ''__version__'' @
     [Many py_isspace, One (\<lambda>c. c = CHR ''=''), Many py_isspace, One is_quote,
      One not_quote, Many not_quote, One is_quote]) s False [] = Some m"
    by (simp add: version_write_pattern_def)
  from re_match_lit [OF this] obtain ys where s: "s = ''__version__'' @ ys"
    and "re_match [Many py_isspace, One (\<lambda>c. c = CHR ''=''), Many py_isspace, One is_quote,
      One not_quote, Many not_quote, One is_quote] ys False [] = Some m" by blast
  from re_match_suffix [OF this(2)] obtain t where "ys = t @ snd m" by blast
  with s show ?thesis by simp
qed

lemma re_sub_frame:
  assumes "re_search version_write_pattern s \<noteq> None"
  shows "\<exists>pre t post m. s = pre @ t @ post \<and> t \<noteq> []
           \<and> re_match version_write_pattern (t @ post) False [] = Some m \<and> snd m = post
           \<and> re_sub version_write_pattern repl s
               = pre @ repl @ re_sub version_write_pattern repl post"
  using assms
proof (induction s)
  case Nil
  then show ?case by (simp add: write_pattern_not_empty)
next
  case (Cons c cs)
  show ?case
  proof (cases "re_match version_write_pattern (c # cs) False []")
    case None
    with Cons.prems have "re_search version_write_pattern cs \<noteq> None" by simp
    from Cons.IH [OF this] obtain pre t post m where
      p: "cs = pre @ t @ post" "t \<noteq> []"
      "re_match version_write_pattern (t @ post) False [] = Some m" "snd m = post"
      "re_sub version_write_pattern repl cs = pre @ repl @ re_sub version_write_pattern repl post"
      by blast
    with None have "c # cs = (c # pre) @ t @ post \<and> t \<noteq> []
           \<and> re_match version_write_pattern (t @ post) False [] = Some m \<and> snd m = post
           \<and> re_sub version_write_pattern repl (c # cs)
               = (c # pre) @ repl @ re_sub version_write_pattern repl post"
      by simp
    then show ?thesis by (intro exI)
  next
    case (Some m)
    from write_pattern_consumes [OF Some] have l: "length (snd m) < length (c # cs)" .
    from re_match_suffix [OF Some] obtain t where t: "c # cs = t @ snd m" by blast
    with l have "t \<noteq> []" by auto
    have r: "re_sub version_write_pattern repl (c # cs)
             = repl @ re_sub version_write_pattern repl (snd m)"
      using Some l by simp
    show ?thesis
    proof (intro exI conjI)
      show "c # cs = [] @ t @ snd m" using t by simp
      show "t \<noteq> []" by fact
      show "re_match version_write_pattern (t @ snd m) False [] = Some m"
        using Some unfolding t .
      show "snd m = snd m" ..
      show "re_sub version_write_pattern repl (c # cs)
            = [] @ repl @ re_sub version_write_pattern repl (snd m)"
        using r by simp
    qed
  qed
qed

lemma line_ends_rewritten:
  \<open>update_version_file
     (healthy (Some (''x = 1'' @ [carriage_return, newline]
                     @ ''__version__ = "1.0.0"'' @ [carriage_return, newline]))) ''1.0.1''
   = Inr (True, [],
          [Some (''x = 1'' @ [carriage_return, newline]
                 @ ''__version__ = "1.0.0"'' @ [carriage_return, newline]),
           Some [],
           Some (''x = 1'' @ [newline] @ ''__version__ = "1.0.1"'' @ [newline])])\<close>
  by code_simp

text \<open>
  Claim C1 says that a write replaces only the assignment and that a file without an
  assignment gets one appended and keeps its content. Where the pattern matches, the
  substitution keeps what stands before and after the match (\<open>re_sub_frame\<close>). But the
  script takes a substitution that changes nothing for a missing assignment and then
  writes only the assignment line (\<open>update_without_assignment\<close>): the content
  \<^verbatim>\<open># settings\<close> is gone after the call.
\<close>

theorem write_drops_content:
  \<open>update_version_file (healthy (Some (''# settings'' @ [newline]))) ''1.0.0''
     = Inr (True, [], [Some (''# settings'' @ [newline]), Some [],
                       Some (''__version__ = "1.0.0"'' @ [newline])])\<close>
  by code_simp


text \<open>
  Claim C7 says that a version written is the version read back, and that the content
  around the assignment is the same afterwards. The first half holds for every version of
  three runs of digits and every file (\<open>write_then_read\<close>). The second does not: on a
  file that holds other content and no assignment the version \<^verbatim>\<open>2.5.0\<close> is read back,
  but the other content is gone; the same happens to a file that already holds the
  assignment of \<^verbatim>\<open>2.5.0\<close> when \<^verbatim>\<open>2.5.0\<close> is written again.
\<close>

theorem round_trip_drops_content:
  \<open>update_version_file (healthy (Some (''import os'' @ [newline]))) ''2.5.0''
     = Inr (True, [], [Some (''import os'' @ [newline]), Some [],
                       Some (''__version__ = "2.5.0"'' @ [newline])])
   \<and> read_current_version (healthy (Some (''__version__ = "2.5.0"'' @ [newline]))) ''v.py''
     = Inr (''2.5.0'', [])
   \<and> update_version_file (healthy (Some (''name = 1'' @ [newline] @ ''__version__ = "2.5.0"'' @ [newline]))) ''2.5.0''
     = Inr (True, [], [Some (''name = 1'' @ [newline] @ ''__version__ = "2.5.0"'' @ [newline]), Some [],
                       Some (''__version__ = "2.5.0"'' @ [newline])])\<close>
  by code_simp


section \<open>An exception that nothing catches\<close>

text \<open>
  Claim C3 says that an increment type other than the three is an error and that no error
  ends the script with an uncaught exception. The first half holds
  (\<open>increment_version_invalid_type\<close>), and no run reaches that error, \<^verbatim>\<open>main\<close>
  passing one of the three types (\<open>parse_type_valid\<close>, \<open>main_uncaught\<close>). But
  \<^verbatim>\<open>update_version_file\<close> makes the directory before its \<^verbatim>\<open>try\<close>: when that
  fails, as for a path under \<^verbatim>\<open>/dev/null\<close>, the exception leaves \<^verbatim>\<open>main\<close>. It is
  not the only one that does: \<open>main_uncaught\<close> lists the others, the exception of
  \<^verbatim>\<open>exists()\<close> at line 19 and the ValueError of lines 52 and 66 for a component of
  more than 4300 digits.
\<close>

theorem mkdir_failure_uncaught:
  \<open>main ((healthy None)\<lparr>mkdir_error := Some ''[Errno 17] File exists''\<rparr>) ''/dev/null/v.py'' ''Fix bug''
     = \<lparr>outcome = Uncaught (OSError ''[Errno 17] File exists''),
        printed = [Text ''Current version: 0.0.0'', Text ''Commit message: Fix bug...'',
                   Text ''Increment type: patch'', Text ''New version: 0.0.1''],
        file_after = None\<rparr>\<close>
  by code_simp


end
